(* ===== verification/Prelude.thy ===== *)
theory Prelude
  imports Main "HOL-Library.Word" "HOL-Library.Product_Lexorder" "HOL-Library.Multiset"
begin

text \<open>
  What every other theory shares: the machine types of the Go code, its errors as values, the
  result type of a fallible operation that threads a state, the Go \<open>for\<close> loop that returns on the
  first error, Go maps as association lists with distinct keys, and a few facts on sorting.
\<close>

section \<open>Machine types\<close>

text \<open>
  A Go \<open>uint64\<close> is a 64 bit word, so \<open>+\<close> wraps. A \<open>uuid.UUID\<close> is read as the number its sixteen
  bytes denote (PostgreSQL compares UUIDs bytewise, which is the order of these numbers). A
  \<open>TIMESTAMPTZ\<close> is a number of microseconds, a \<open>time.Duration\<close> a number of nanoseconds.
\<close>

type_synonym uint64 = "64 word"
type_synonym uuid = nat
type_synonym timestamp = int
type_synonym duration = int

text \<open>
  \<open>int64(x)\<close> of a \<open>uint64\<close> keeps the bits and reads them in two's complement; \<open>uint64(x)\<close> of an
  \<open>int64\<close> goes back. The database columns that hold node ids are \<open>BIGINT\<close>, an \<open>int64\<close>.
\<close>

definition int64_of_uint64 :: "uint64 \<Rightarrow> int" where
  "int64_of_uint64 w = sint w"

definition uint64_of_int64 :: "int \<Rightarrow> uint64" where
  "uint64_of_int64 i = word_of_int i"

lemma uint64_of_int64_of_uint64 [simp]: "uint64_of_int64 (int64_of_uint64 w) = w"
  by (simp add: int64_of_uint64_def uint64_of_int64_def)

lemma int64_of_uint64_inject [simp]: "int64_of_uint64 v = int64_of_uint64 w \<longleftrightarrow> v = w"
  by (metis uint64_of_int64_of_uint64)

lemma inj_int64_of_uint64: "inj int64_of_uint64"
  by (simp add: inj_def)

definition is_int64 :: "int \<Rightarrow> bool" where
  "is_int64 i \<longleftrightarrow> - (2 ^ 63) \<le> i \<and> i < 2 ^ 63"

lemma is_int64_of_uint64 [simp]: "is_int64 (int64_of_uint64 w)"
  using sint_ge [of w] sint_lt [of w] by (simp add: is_int64_def int64_of_uint64_def)

lemma int64_of_uint64_of_int64: "is_int64 i \<Longrightarrow> int64_of_uint64 (uint64_of_int64 i) = i"
  by (auto simp: is_int64_def int64_of_uint64_def uint64_of_int64_def int_word_sint)

lemma int64_of_uint64_small:
  assumes "uint w = i" and "is_int64 i"
  shows "int64_of_uint64 w = i"
  using int64_of_uint64_of_int64 [OF assms(2)] assms(1) [symmetric]
  by (simp add: uint64_of_int64_def)

text \<open>Go's integer division truncates towards zero.\<close>

definition go_div :: "int \<Rightarrow> int \<Rightarrow> int" where
  "go_div a b = sgn a * sgn b * (\<bar>a\<bar> div \<bar>b\<bar>)"

lemma go_div_nonneg: "0 \<le> a \<Longrightarrow> 0 < b \<Longrightarrow> go_div a b = a div b"
  by (cases "a = 0") (auto simp: go_div_def)

section \<open>Errors\<close>

text \<open>
  A Go \<open>error\<close> as a value. \<open>Failure\<close> is an error the environment raises (the driver, the
  network, the operating system), \<open>Wrap c e\<close> is \<open>fmt.Errorf("c: %w", e)\<close>, \<open>Detail e s\<close> is
  \<open>fmt.Errorf("%w: %s", e, s)\<close>; the other constructors
  are the errors the program builds itself, with the values it formats into the message.
\<close>

datatype error =
    Failure string
  | Wrap string error
  | Detail error string
  | NotLeased uuid uint64
  | InvalidStatus uuid string
  | Invalid string
  | Required string
  | StatusError string string

section \<open>Fallible operations on a state\<close>

type_synonym ('s, 'a) res = "'s \<Rightarrow> (error + 'a) \<times> 's"

definition returnE :: "'a \<Rightarrow> ('s, 'a) res" where
  "returnE a s = (Inr a, s)"

definition throwE :: "error \<Rightarrow> ('s, 'a) res" where
  "throwE e s = (Inl e, s)"

text \<open>\<open>bindE m k\<close>: run \<open>m\<close>; return its error, or go on with its value.\<close>

definition bindE :: "('s, 'a) res \<Rightarrow> ('a \<Rightarrow> ('s, 'b) res) \<Rightarrow> ('s, 'b) res" where
  "bindE m k s = (case m s of (Inl e, s') \<Rightarrow> (Inl e, s') | (Inr a, s') \<Rightarrow> k a s')"

text \<open>\<open>if err != nil { return fmt.Errorf("c: %w", err) }\<close>\<close>

definition wrapE :: "string \<Rightarrow> ('s, 'a) res \<Rightarrow> ('s, 'a) res" where
  "wrapE c m s = (case m s of (Inl e, s') \<Rightarrow> (Inl (Wrap c e), s') | (Inr a, s') \<Rightarrow> (Inr a, s'))"

definition liftE :: "error + 'a \<Rightarrow> ('s, 'a) res" where
  "liftE r s = (r, s)"

text \<open>A \<open>for range\<close> loop whose body returns from the function on its first error.\<close>

fun forE :: "('x \<Rightarrow> ('s, unit) res) \<Rightarrow> 'x list \<Rightarrow> ('s, unit) res" where
  "forE f [] s = (Inr (), s)"
| "forE f (x # xs) s = (case f x s of (Inl e, s') \<Rightarrow> (Inl e, s') | (Inr _, s') \<Rightarrow> forE f xs s')"

text \<open>Collecting the values of a loop that appends one value per element, or fails.\<close>

fun collectE :: "('x \<Rightarrow> error + 'y) \<Rightarrow> 'x list \<Rightarrow> error + 'y list" where
  "collectE f [] = Inr []"
| "collectE f (x # xs) =
     (case f x of Inl e \<Rightarrow> Inl e
      | Inr y \<Rightarrow> (case collectE f xs of Inl e \<Rightarrow> Inl e | Inr ys \<Rightarrow> Inr (y # ys)))"

named_theorems res_simps "unfolding of the result combinators"

lemma returnE_simp [res_simps]: "returnE a s = (Inr a, s)"
  by (simp add: returnE_def)

lemma throwE_simp [res_simps]: "throwE e s = (Inl e, s)"
  by (simp add: throwE_def)

lemma liftE_simp [res_simps]: "liftE r s = (r, s)"
  by (simp add: liftE_def)

lemma bindE_Inr_iff [res_simps]:
  "bindE m k s = (Inr b, s'') \<longleftrightarrow> (\<exists>a s'. m s = (Inr a, s') \<and> k a s' = (Inr b, s''))"
  by (auto simp: bindE_def split: prod.splits sum.splits)

lemma wrapE_Inr_iff [res_simps]: "wrapE c m s = (Inr a, s') \<longleftrightarrow> m s = (Inr a, s')"
  by (auto simp: wrapE_def split: prod.splits sum.splits)

lemma forE_Cons_Inr:
  "forE f (x # xs) s = (Inr u, s') \<longleftrightarrow> (\<exists>v s1. f x s = (Inr v, s1) \<and> forE f xs s1 = (Inr u, s'))"
  by (auto split: prod.splits sum.splits)

lemma snd_wrapE [simp]: "snd (wrapE c m s) = snd (m s)"
  by (auto simp: wrapE_def split: prod.splits sum.splits)

text \<open>
  A property of the state that both parts keep is kept by their sequence, and by a loop whose
  body keeps it: the rules the invariant proofs are built from.
\<close>

definition keepsE :: "('s \<Rightarrow> bool) \<Rightarrow> ('s, 'a) res \<Rightarrow> bool" where
  "keepsE P m \<longleftrightarrow> (\<forall>s. P s \<longrightarrow> P (snd (m s)))"

lemma keepsED: "keepsE P m \<Longrightarrow> P s \<Longrightarrow> m s = (r, s') \<Longrightarrow> P s'"
  by (metis keepsE_def snd_conv)

lemma keepsE_bind: "keepsE P m \<Longrightarrow> (\<And>a. keepsE P (k a)) \<Longrightarrow> keepsE P (bindE m k)"
  by (fastforce simp: keepsE_def bindE_def split: prod.splits sum.splits)

lemma keepsE_wrap: "keepsE P m \<Longrightarrow> keepsE P (wrapE c m)"
  by (simp add: keepsE_def)

lemma keepsE_return: "keepsE P (returnE a)"
  by (simp add: keepsE_def returnE_def)

lemma keepsE_throw: "keepsE P (throwE a)"
  by (simp add: keepsE_def throwE_def)

lemma keepsE_lift: "keepsE P (liftE a)"
  by (simp add: keepsE_def liftE_def)

lemma keepsE_for:
  assumes "\<And>x. x \<in> set xs \<Longrightarrow> keepsE P (f x)"
  shows "keepsE P (forE f xs)"
proof -
  have "P (snd (forE f xs s))" if "P s" for s
    using that assms
  proof (induction xs arbitrary: s)
    case Nil
    then show ?case by simp
  next
    case (Cons x xs)
    obtain r s' where r: "f x s = (r, s')" by (cases "f x s")
    have "keepsE P (f x)" using Cons.prems(2) by simp
    with r Cons.prems(1) have "P s'" by (blast dest: keepsED)
    with Cons r show ?case by (auto split: sum.splits)
  qed
  then show ?thesis by (simp add: keepsE_def)
qed

lemmas keepsE_intros = keepsE_bind keepsE_wrap keepsE_return keepsE_throw keepsE_lift keepsE_for

lemma collectE_Inr_map: "collectE f xs = Inr ys \<longleftrightarrow> map f xs = map Inr ys"
proof (induction xs arbitrary: ys)
  case Nil
  then show ?case by auto
next
  case (Cons x xs)
  have IH: "collectE f xs = Inr zs \<longleftrightarrow> map f xs = map Inr zs" for zs
    by (rule Cons.IH)
  show ?case
  proof (cases ys)
    case Nil
    then show ?thesis by (simp split: sum.splits)
  next
    case (Cons y zs)
    then show ?thesis using IH [of zs] by (cases "collectE f xs") (auto split: sum.splits)
  qed
qed

lemma collectE_total: "(\<And>x. x \<in> set xs \<Longrightarrow> f x = Inr (g x)) \<Longrightarrow> collectE f xs = Inr (map g xs)"
  by (simp add: collectE_Inr_map)

lemma collectE_Inl: "x \<in> set xs \<Longrightarrow> f x = Inl e \<Longrightarrow> \<exists>e'. collectE f xs = Inl e'"
  by (induction xs) (auto split: sum.splits)

lemma map_sum_Pair_Inr [simp]: "map_sum id (Pair ()) r = Inr (u, d) \<longleftrightarrow> r = Inr d"
  by (cases r) auto

section \<open>Go maps\<close>

text \<open>
  A Go map is an association list with distinct keys. Go iterates over a map in an unspecified
  order: here it is the order of the list, over which every statement quantifies.
\<close>

type_synonym ('k, 'v) gomap = "('k \<times> 'v) list"

definition gomap_ok :: "('k, 'v) gomap \<Rightarrow> bool" where
  "gomap_ok m \<longleftrightarrow> distinct (map fst m)"

definition gomap_delete :: "'k \<Rightarrow> ('k, 'v) gomap \<Rightarrow> ('k, 'v) gomap" where
  "gomap_delete k m = filter (\<lambda>p. fst p \<noteq> k) m"

definition gomap_insert :: "'k \<Rightarrow> 'v \<Rightarrow> ('k, 'v) gomap \<Rightarrow> ('k, 'v) gomap" where
  "gomap_insert k v m = (k, v) # gomap_delete k m"

lemma map_of_gomap_delete [simp]: "map_of (gomap_delete k m) = (map_of m)(k := None)"
  by (induction m) (auto simp: gomap_delete_def)

lemma map_of_gomap_insert [simp]: "map_of (gomap_insert k v m) = (map_of m)(k \<mapsto> v)"
  by (simp add: gomap_insert_def)

lemma gomap_ok_Nil [simp]: "gomap_ok []"
  by (simp add: gomap_ok_def)

lemma gomap_ok_delete [simp]: "gomap_ok m \<Longrightarrow> gomap_ok (gomap_delete k m)"
  by (induction m) (auto simp: gomap_ok_def gomap_delete_def)

lemma gomap_ok_insert [simp]: "gomap_ok m \<Longrightarrow> gomap_ok (gomap_insert k v m)"
  using gomap_ok_delete [of m k] by (auto simp: gomap_ok_def gomap_insert_def gomap_delete_def)

lemma gomap_ok_filter [simp]: "gomap_ok m \<Longrightarrow> gomap_ok (filter P m)"
  by (induction m) (auto simp: gomap_ok_def)

lemma map_of_filter_key: "map_of (filter (\<lambda>(i, m). i \<noteq> k) ms) i = (if i = k then None else map_of ms i)"
  by (induction ms) auto

lemma fst_set_gomap_delete [simp]: "fst ` set (gomap_delete k m) = fst ` set m - {k}"
  by (auto simp: gomap_delete_def image_iff)

lemma gomap_length_card: "gomap_ok m \<Longrightarrow> length m = card (fst ` set m)"
  by (metis distinct_card gomap_ok_def length_map set_map)

section \<open>Sorting\<close>

text \<open>A new greatest element goes to the end of a stable sort.\<close>

lemma sort_key_snoc_greatest:
  assumes "\<And>y. y \<in> set xs \<Longrightarrow> f y < f x"
  shows "sort_key f (xs @ [x]) = sort_key f xs @ [x]"
  using assms
proof (induction xs)
  case Nil
  then show ?case by simp
next
  case (Cons a xs)
  then have IH: "sort_key f (xs @ [x]) = sort_key f xs @ [x]" and lt: "f a < f x"
    by simp_all
  have "insort_key f a (ys @ [x]) = insort_key f a ys @ [x]" for ys
    using lt by (induction ys) auto
  with IH show ?case by simp
qed

lemma sort_eq_of_mset: "mset xs = mset ys \<Longrightarrow> sort xs = sort ys"
  by (metis properties_for_sort mset_sort sorted_sort)

end
