(* ===== verification/GoStrings.thy ===== *)
theory GoStrings
  imports Prelude "HOL-Library.Sublist"
begin

text \<open>
  The functions of Go's \<open>strings\<close> the program calls, on byte strings: \<open>Split\<close> and \<open>SplitN\<close> at a
  single byte, \<open>HasPrefix\<close> (which is \<open>prefix\<close>) and \<open>TrimSpace\<close>.
\<close>

section \<open>Splitting\<close>

text \<open>\<open>strings.Split(s, sep)\<close> and \<open>strings.SplitSeq(s, sep)\<close> for a one byte separator.\<close>

fun split_on :: "char \<Rightarrow> string \<Rightarrow> string list" where
  "split_on sep [] = [[]]"
| "split_on sep (c # cs) =
     (if c = sep then [] # split_on sep cs
      else case split_on sep cs of [] \<Rightarrow> [[c]] | p # ps \<Rightarrow> (c # p) # ps)"

text \<open>\<open>strings.SplitN(s, sep, 2)\<close>: the parts before and after the first separator.\<close>

definition split_first :: "char \<Rightarrow> string \<Rightarrow> string list" where
  "split_first sep s =
     (case dropWhile (\<lambda>c. c \<noteq> sep) s of
        [] \<Rightarrow> [s]
      | _ # rest \<Rightarrow> [takeWhile (\<lambda>c. c \<noteq> sep) s, rest])"

lemma split_on_nonempty: "split_on sep s \<noteq> []"
  by (induction s) (auto split: list.splits)

lemma split_on_no_sep: "p \<in> set (split_on sep s) \<Longrightarrow> sep \<notin> set p"
  by (induction s arbitrary: p) (auto split: list.splits if_splits)

text \<open>Splitting is the inverse of joining with the separator.\<close>

fun join_with :: "char \<Rightarrow> string list \<Rightarrow> string" where
  "join_with sep [] = []"
| "join_with sep [p] = p"
| "join_with sep (p # q # ps) = p @ sep # join_with sep (q # ps)"

lemma join_with_Cons: "ps \<noteq> [] \<Longrightarrow> join_with sep (p # ps) = p @ sep # join_with sep ps"
  by (cases ps) simp_all

lemma join_split_on: "join_with sep (split_on sep s) = s"
proof (induction s)
  case Nil
  then show ?case by simp
next
  case (Cons c cs)
  obtain p ps where p: "split_on sep cs = p # ps" by (cases "split_on sep cs") (auto simp: split_on_nonempty)
  have "join_with sep ((c # p) # ps) = c # join_with sep (p # ps)"
    by (cases ps) simp_all
  with Cons p show ?case by (simp add: join_with_Cons)
qed

lemma split_on_fresh: "sep \<notin> set p \<Longrightarrow> split_on sep p = [p]"
  by (induction p) auto

lemma split_on_append: "split_on sep (p @ sep # q) = split_on sep p @ split_on sep q"
proof (induction p)
  case (Cons c p)
  then show ?case using split_on_nonempty [of sep p] by (auto split: list.splits)
qed simp

lemma split_join:
  "ps \<noteq> [] \<Longrightarrow> \<forall>p \<in> set ps. sep \<notin> set p \<Longrightarrow> split_on sep (join_with sep ps) = ps"
proof (induction sep ps rule: join_with.induct)
  case (3 sep p q ps)
  then show ?case using split_on_append [of sep p "join_with sep (q # ps)"] by (simp add: split_on_fresh)
qed (auto simp: split_on_fresh)

section \<open>TrimSpace\<close>

text \<open>
  The UTF-8 encodings of the characters for which \<open>unicode.IsSpace\<close> holds: the six ASCII ones,
  U+0085, U+00A0, U+1680, U+2000 to U+200A, U+2028, U+2029, U+202F, U+205F and U+3000.
\<close>

definition space_encodings :: "string list" where
  "space_encodings = map (map char_of)
     ([[9], [10], [11], [12], [13], [32], [194, 133], [194, 160], [225, 154, 128]] @
      map (\<lambda>b. [226, 128, b]) [128..<139] @
      [[226, 128, 168], [226, 128, 169], [226, 128, 175], [226, 129, 159], [227, 128, 128 :: nat]])"

text \<open>Remove words of \<open>ws\<close> from the front as long as there is one.\<close>

function strip_front :: "string list \<Rightarrow> string \<Rightarrow> string" where
  "strip_front ws s =
     (case find (\<lambda>w. w \<noteq> [] \<and> prefix w s) ws of
        None \<Rightarrow> s
      | Some w \<Rightarrow> strip_front ws (drop (length w) s))"
  by pat_completeness auto
termination
proof (relation "measure (\<lambda>(ws, s). length s)", goal_cases)
  case (2 ws s w)
  then have "w \<noteq> []" and "prefix w s" by (auto simp: find_Some_iff)
  then show ?case using prefix_length_le [of w s] by (cases w) auto
qed simp

declare strip_front.simps [simp del]

definition TrimSpace :: "string \<Rightarrow> string" where
  "TrimSpace s = rev (strip_front (map rev space_encodings) (rev (strip_front space_encodings s)))"

lemma strip_front_stripped: "w \<in> set ws \<Longrightarrow> w \<noteq> [] \<Longrightarrow> \<not> prefix w (strip_front ws s)"
proof (induction ws s rule: strip_front.induct)
  case (1 ws s)
  show ?case
  proof (cases "find (\<lambda>w. w \<noteq> [] \<and> prefix w s) ws")
    case None
    then have "strip_front ws s = s" by (simp add: strip_front.simps [of ws s])
    with None "1.prems" show ?thesis by (auto simp: find_None_iff)
  next
    case (Some v)
    then show ?thesis using 1 by (simp add: strip_front.simps [of ws s])
  qed
qed

lemma strip_front_suffix: "suffix (strip_front ws s) s"
proof (induction ws s rule: strip_front.induct)
  case (1 ws s)
  show ?case
  proof (cases "find (\<lambda>w. w \<noteq> [] \<and> prefix w s) ws")
    case None
    then show ?thesis by (simp add: strip_front.simps [of ws s])
  next
    case (Some v)
    then have "suffix (strip_front ws (drop (length v) s)) (drop (length v) s)" by (rule 1)
    then show ?thesis using Some suffix_drop [of "length v" s]
      by (simp add: strip_front.simps [of ws s])
  qed
qed

text \<open>The result is a substring with no space at either end.\<close>

lemma TrimSpace_sublist: "sublist (TrimSpace s) s"
proof -
  let ?l = "strip_front space_encodings s"
  have "prefix (TrimSpace s) ?l"
    using strip_front_suffix [of "map rev space_encodings" "rev ?l"]
    by (simp add: TrimSpace_def suffix_to_prefix)
  then show ?thesis using strip_front_suffix [of space_encodings s] by (auto simp: sublist_altdef')
qed

lemma space_encodings_nonempty: "w \<in> set space_encodings \<Longrightarrow> w \<noteq> []"
  by (auto simp: space_encodings_def)

lemma TrimSpace_no_space:
  assumes "w \<in> set space_encodings"
  shows "\<not> suffix w (TrimSpace s)" and "\<not> prefix w (TrimSpace s)"
proof -
  let ?l = "strip_front space_encodings s"
  have ne: "w \<noteq> []" by (rule space_encodings_nonempty [OF assms])
  have "\<not> prefix (rev w) (strip_front (map rev space_encodings) (rev ?l))"
    using assms ne by (intro strip_front_stripped) auto
  then show "\<not> suffix w (TrimSpace s)" by (simp add: TrimSpace_def suffix_to_prefix)
  have "prefix (TrimSpace s) ?l"
    using strip_front_suffix [of "map rev space_encodings" "rev ?l"]
    by (simp add: TrimSpace_def suffix_to_prefix)
  moreover have "\<not> prefix w ?l" using strip_front_stripped [OF assms ne] .
  ultimately show "\<not> prefix w (TrimSpace s)" by (metis prefix_order.trans)
qed

lemma TrimSpace_clean:
  assumes "\<And>w. w \<in> set space_encodings \<Longrightarrow> \<not> prefix w s \<and> \<not> suffix w s"
  shows "TrimSpace s = s"
proof -
  have "find (\<lambda>w. w \<noteq> [] \<and> prefix w s) space_encodings = None"
    "find (\<lambda>w. w \<noteq> [] \<and> prefix w (rev s)) (map rev space_encodings) = None"
    using assms by (auto simp: find_None_iff suffix_to_prefix)
  then have "strip_front space_encodings s = s" "strip_front (map rev space_encodings) (rev s) = rev s"
    by (simp_all add: strip_front.simps [of _ s] strip_front.simps [of _ "rev s"])
  then show ?thesis by (simp add: TrimSpace_def)
qed

end
