(* ===== verification/Strconv.thy ===== *)
theory Strconv
  imports Prelude
begin

text \<open>
  The functions of Go's \<open>strconv\<close> the program calls: \<open>ParseUint(s, 10, 64)\<close>, \<open>FormatUint(n, 10)\<close> and
  \<open>Atoi\<close>. \<open>ParseUint\<close> is the loop of the standard library on 64 bit words, with its overflow tests;
  the main lemma is the round trip through \<open>FormatUint\<close>.
\<close>

section \<open>Decimal digits\<close>

definition digit_char :: "nat \<Rightarrow> char" where
  "digit_char d = char_of (48 + d)"

definition digit_of :: "char \<Rightarrow> nat option" where
  "digit_of c = (if 48 \<le> (of_char c :: nat) \<and> (of_char c :: nat) \<le> 57 then Some (of_char c - 48) else None)"

lemma digit_of_digit_char [simp]: "d < 10 \<Longrightarrow> digit_of (digit_char d) = Some d"
  by (simp add: digit_of_def digit_char_def of_char_of)

lemma digit_of_Some: "digit_of c = Some d \<Longrightarrow> d < 10"
  by (auto simp: digit_of_def split: if_splits)

section \<open>ParseUint\<close>

text \<open>\<open>maxUint64/10 + 1\<close>: from here on a multiplication by ten overflows.\<close>

definition parse_cutoff :: uint64 where
  "parse_cutoff = 1844674407370955162"

fun parse_uint_loop :: "uint64 \<Rightarrow> string \<Rightarrow> error + uint64" where
  "parse_uint_loop n [] = Inr n"
| "parse_uint_loop n (c # cs) =
     (case digit_of c of
        None \<Rightarrow> Inl (Invalid ''invalid syntax'')
      | Some d \<Rightarrow>
          if parse_cutoff \<le> n then Inl (Invalid ''value out of range'')
          else let n10 = n * 10; n1 = n10 + of_nat d in
               if n1 < n10 then Inl (Invalid ''value out of range'') else parse_uint_loop n1 cs)"

definition ParseUint :: "string \<Rightarrow> error + uint64" where
  "ParseUint s = (if s = [] then Inl (Invalid ''invalid syntax'') else parse_uint_loop 0 s)"

section \<open>FormatUint\<close>

fun nat_digits :: "nat \<Rightarrow> string" where
  "nat_digits n = (if n < 10 then [digit_char n] else nat_digits (n div 10) @ [digit_char (n mod 10)])"

declare nat_digits.simps [simp del]

definition FormatUint :: "uint64 \<Rightarrow> string" where
  "FormatUint w = nat_digits (unat w)"

section \<open>Atoi\<close>

text \<open>An optional sign and a decimal number in the range of \<open>int64\<close>.\<close>

definition parse_unsigned_part :: "bool \<Rightarrow> string \<Rightarrow> error + int" where
  "parse_unsigned_part neg s =
     (case ParseUint s of
        Inl e \<Rightarrow> Inl e
      | Inr un \<Rightarrow>
          if \<not> neg \<and> 2 ^ 63 \<le> uint un then Inl (Invalid ''value out of range'')
          else if neg \<and> 2 ^ 63 < uint un then Inl (Invalid ''value out of range'')
          else Inr (if neg then - uint un else uint un))"

definition Atoi :: "string \<Rightarrow> error + int" where
  "Atoi s =
     (case s of
        [] \<Rightarrow> Inl (Invalid ''invalid syntax'')
      | c # cs \<Rightarrow>
          if c = CHR ''+'' then parse_unsigned_part False cs
          else if c = CHR ''-'' then parse_unsigned_part True cs
          else parse_unsigned_part False (c # cs))"

section \<open>Correctness\<close>

text \<open>The number a list of digit characters denotes, after a prefix worth \<open>n\<close>.\<close>

fun digits_value :: "nat \<Rightarrow> string \<Rightarrow> nat option" where
  "digits_value n [] = Some n"
| "digits_value n (c # cs) = (case digit_of c of None \<Rightarrow> None | Some d \<Rightarrow> digits_value (n * 10 + d) cs)"

lemma digits_value_append:
  "digits_value n (xs @ ys) = (case digits_value n xs of None \<Rightarrow> None | Some m \<Rightarrow> digits_value m ys)"
  by (induction xs arbitrary: n) (auto split: option.splits)

lemma digits_value_mono: "digits_value n cs = Some m \<Longrightarrow> n \<le> m"
proof (induction cs arbitrary: n)
  case Nil
  then show ?case by simp
next
  case (Cons c cs)
  then obtain d where "digits_value (n * 10 + d) cs = Some m" by (auto split: option.splits)
  then show ?case using Cons.IH [of "n * 10 + d"] by simp
qed

lemma digits_value_nat_digits: "digits_value 0 (nat_digits n) = Some n"
proof (induction n rule: nat_digits.induct)
  case (1 n)
  then show ?case
    by (cases "n < 10") (auto simp: nat_digits.simps [of n] digits_value_append)
qed

lemma nat_digits_nonempty: "nat_digits n \<noteq> []"
  by (simp add: nat_digits.simps [of n])

text \<open>One round of the loop: no test fires while the value stays below \<open>2^64\<close>, and one does otherwise.\<close>

lemma parse_step:
  assumes "d < 10"
  shows "parse_cutoff \<le> n \<or> n * 10 + of_nat d < n * 10 \<longleftrightarrow> 2 ^ 64 \<le> unat n * 10 + d"
    and "unat n * 10 + d < 2 ^ 64 \<Longrightarrow> unat (n * 10 + of_nat d) = unat n * 10 + d"
proof -
  have d64: "unat (of_nat d :: uint64) = d" using assms by (simp add: unat_of_nat)
  have ten: "unat (10 :: uint64) = 10" by simp
  have cut: "parse_cutoff \<le> n \<longleftrightarrow> 2 ^ 64 \<le> unat n * 10"
    by (auto simp: parse_cutoff_def word_le_nat_alt)
  have mul: "unat (n * 10) = unat n * 10" if "\<not> parse_cutoff \<le> n"
    using that cut by (simp add: unat_word_ariths)
  show "unat (n * 10 + of_nat d) = unat n * 10 + d" if "unat n * 10 + d < 2 ^ 64"
    using that assms by (simp add: unat_word_ariths d64)
  have "n * 10 + of_nat d < n * 10 \<longleftrightarrow> 2 ^ 64 \<le> unat n * 10 + d" if "\<not> parse_cutoff \<le> n"
  proof -
    have s: "unat n * 10 < 2 ^ 64" using that cut by simp
    have "unat (n * 10 + of_nat d) = (unat n * 10 + d) mod 2 ^ 64"
      using mul [OF that] by (simp add: unat_word_ariths d64)
    with s assms mul [OF that] show ?thesis
      by (auto simp: word_less_nat_alt mod_if)
  qed
  then show "parse_cutoff \<le> n \<or> n * 10 + of_nat d < n * 10 \<longleftrightarrow> 2 ^ 64 \<le> unat n * 10 + d"
    using cut by auto
qed

lemma parse_uint_loop_iff:
  "parse_uint_loop n cs = Inr w \<longleftrightarrow> digits_value (unat n) cs = Some (unat w)"
proof (induction cs arbitrary: n)
  case Nil
  then show ?case by (simp add: word_unat_eq_iff)
next
  case (Cons c cs)
  show ?case
  proof (cases "digit_of c")
    case None
    then show ?thesis by simp
  next
    case (Some d)
    note st = parse_step [OF digit_of_Some [OF Some], of n]
    show ?thesis
    proof (cases "2 ^ 64 \<le> unat n * 10 + d")
      case True
      have "m \<ge> 2 ^ 64" if "digits_value (unat n * 10 + d) cs = Some m" for m
        using digits_value_mono [OF that] True by simp
      moreover have "unat w < 2 ^ 64" using unsigned_less [of w, where ?'a = nat] by simp
      ultimately have "digits_value (unat n * 10 + d) cs \<noteq> Some (unat w)" by fastforce
      with True st(1) Some show ?thesis by (auto simp: Let_def)
    next
      case False
      with st Some Cons.IH [of "n * 10 + of_nat d"] show ?thesis by (auto simp: Let_def)
    qed
  qed
qed

lemma ParseUint_FormatUint: "ParseUint (FormatUint w) = Inr w"
  by (simp add: ParseUint_def FormatUint_def nat_digits_nonempty parse_uint_loop_iff
      digits_value_nat_digits)

lemma ParseUint_iff:
  "ParseUint s = Inr w \<longleftrightarrow> s \<noteq> [] \<and> digits_value 0 s = Some (unat w)"
  by (simp add: ParseUint_def parse_uint_loop_iff)

end
