(* ===== verification/Config.thy ===== *)
theory Config
  imports GoStrings Strconv
begin

text \<open>
  The package \<open>config\<close>: the configuration records and their loaders. The environment is a parameter:
  \<open>Getenv\<close> returns the empty string for an unset variable, and \<open>ParseDuration\<close> stands for
  \<open>time.ParseDuration\<close>, of which the loaders only use whether it fails and what it returns.
\<close>

section \<open>The environment\<close>

record osenv =
  Getenv :: "string \<Rightarrow> string"
  ParseDuration :: "string \<Rightarrow> error + duration"

definition millisecond :: duration where "millisecond = 1000000"
definition second :: duration where "second = 1000 * millisecond"
definition minute :: duration where "minute = 60 * second"

definition getEnvOrDefault :: "osenv \<Rightarrow> string \<Rightarrow> string \<Rightarrow> string" where
  "getEnvOrDefault env key defaultValue = (if Getenv env key \<noteq> '''' then Getenv env key else defaultValue)"

definition getDurationEnv :: "osenv \<Rightarrow> string \<Rightarrow> duration \<Rightarrow> duration" where
  "getDurationEnv env key defaultValue =
     (let v = Getenv env key in
      if v = '''' then defaultValue
      else case ParseDuration env v of Inl _ \<Rightarrow> defaultValue | Inr d \<Rightarrow> d)"

definition getIntEnv :: "osenv \<Rightarrow> string \<Rightarrow> int \<Rightarrow> int" where
  "getIntEnv env key defaultValue =
     (let v = Getenv env key in
      if v = '''' then defaultValue
      else case Atoi v of Inl _ \<Rightarrow> defaultValue | Inr i \<Rightarrow> i)"

section \<open>The records\<close>

record node_config =
  node_ID :: uint64
  node_Address :: string

record server_config =
  server_Port :: string

record database_config =
  database_DSN :: string

record storage_config =
  storage_Endpoint :: string
  storage_Bucket :: string
  storage_AccessKey :: string
  storage_SecretKey :: string
  storage_Region :: string
  storage_UseSSL :: bool

record memberlist_config =
  ml_BindAddr :: string
  ml_BindPort :: int
  ml_AdvertiseAddr :: string
  ml_Seeds :: "string list"
  ml_ProbeInterval :: duration
  ml_ProbeTimeout :: duration
  ml_GossipInterval :: duration
  ml_PushPullInterval :: duration
  ml_SuspicionMult :: int

record election_config =
  ElectionTimeout :: duration
  AnnounceRetryInterval :: duration
  SendRetryInterval :: duration

record health_config =
  health_Port :: string

record scheduler_config =
  PollInterval :: duration
  BatchSize :: int
  Strategy_name :: string
  LeaseDuration :: duration

record worker_config =
  RPCTimeout :: duration
  LeaseRenewalInterval :: duration

record log_config =
  log_Level :: string
  log_Format :: string

record config =
  cfg_Database :: database_config
  cfg_Log :: log_config
  cfg_Node :: node_config
  cfg_Server :: server_config
  cfg_Storage :: storage_config
  cfg_Memberlist :: memberlist_config
  cfg_Election :: election_config
  cfg_Health :: health_config
  cfg_Scheduler :: scheduler_config
  cfg_Worker :: worker_config

section \<open>The loaders\<close>

text \<open>The check \<open>if v == "" { return ..., fmt.Errorf("KEY is required") }\<close> of several keys in a row.\<close>

fun require :: "osenv \<Rightarrow> string list \<Rightarrow> error + unit" where
  "require env [] = Inr ()"
| "require env (k # ks) = (if Getenv env k = '''' then Inl (Required k) else require env ks)"

definition loadNodeConfig :: "osenv \<Rightarrow> error + node_config" where
  "loadNodeConfig env =
     (case ParseUint (Getenv env ''NODE_ID'') of
        Inl e \<Rightarrow> Inl e
      | Inr i \<Rightarrow>
          if i = 0 then Inl (Required ''NODE_ID'')
          else if Getenv env ''NODE_ADDRESS'' = '''' then Inl (Required ''NODE_ADDRESS'')
          else Inr \<lparr>node_ID = i, node_Address = Getenv env ''NODE_ADDRESS''\<rparr>)"

definition loadServerConfig :: "osenv \<Rightarrow> error + server_config" where
  "loadServerConfig env =
     (if Getenv env ''GRPC_PORT'' = '''' then Inl (Required ''GRPC_PORT'')
      else Inr \<lparr>server_Port = Getenv env ''GRPC_PORT''\<rparr>)"

definition postgres_dsn :: "string \<Rightarrow> string \<Rightarrow> string \<Rightarrow> string \<Rightarrow> string \<Rightarrow> string \<Rightarrow> string" where
  "postgres_dsn user password host port dbName sslMode =
     ''postgres://'' @ user @ '':'' @ password @ ''@'' @ host @ '':'' @ port @ ''/'' @ dbName @
     ''?sslmode='' @ sslMode"

definition loadDatabaseConfig :: "osenv \<Rightarrow> error + database_config" where
  "loadDatabaseConfig env =
     (case require env [''POSTGRES_HOST'', ''POSTGRES_PORT'', ''POSTGRES_USER'', ''POSTGRES_PASSWORD'',
            ''POSTGRES_DB'', ''POSTGRES_SSL_MODE''] of
        Inl e \<Rightarrow> Inl e
      | Inr _ \<Rightarrow> Inr \<lparr>database_DSN = postgres_dsn (Getenv env ''POSTGRES_USER'')
          (Getenv env ''POSTGRES_PASSWORD'') (Getenv env ''POSTGRES_HOST'') (Getenv env ''POSTGRES_PORT'')
          (Getenv env ''POSTGRES_DB'') (Getenv env ''POSTGRES_SSL_MODE'')\<rparr>)"

definition loadStorageConfig :: "osenv \<Rightarrow> error + storage_config" where
  "loadStorageConfig env =
     (case require env [''STORAGE_ENDPOINT'', ''STORAGE_BUCKET'', ''STORAGE_ACCESS_KEY'',
            ''STORAGE_SECRET_KEY'', ''STORAGE_REGION''] of
        Inl e \<Rightarrow> Inl e
      | Inr _ \<Rightarrow> Inr \<lparr>storage_Endpoint = Getenv env ''STORAGE_ENDPOINT'',
          storage_Bucket = Getenv env ''STORAGE_BUCKET'', storage_AccessKey = Getenv env ''STORAGE_ACCESS_KEY'',
          storage_SecretKey = Getenv env ''STORAGE_SECRET_KEY'', storage_Region = Getenv env ''STORAGE_REGION'',
          storage_UseSSL = (Getenv env ''STORAGE_USE_SSL'' = ''true'')\<rparr>)"

definition parseSeeds :: "string \<Rightarrow> string list" where
  "parseSeeds v = filter (\<lambda>s. s \<noteq> '''') (map TrimSpace (split_on (CHR '','') v))"

definition loadMemberlistConfig :: "osenv \<Rightarrow> error + memberlist_config" where
  "loadMemberlistConfig env =
     (case require env [''MEMBERLIST_BIND_ADDR'', ''MEMBERLIST_BIND_PORT'', ''MEMBERLIST_SEEDS''] of
        Inl e \<Rightarrow> Inl e
      | Inr _ \<Rightarrow>
          (case Atoi (Getenv env ''MEMBERLIST_BIND_PORT'') of
             Inl e \<Rightarrow> Inl (Wrap ''invalid MEMBERLIST_BIND_PORT'' e)
           | Inr port \<Rightarrow> Inr \<lparr>ml_BindAddr = Getenv env ''MEMBERLIST_BIND_ADDR'', ml_BindPort = port,
               ml_AdvertiseAddr = getEnvOrDefault env ''MEMBERLIST_ADVERTISE_ADDR''
                 (Getenv env ''MEMBERLIST_BIND_ADDR''),
               ml_Seeds = parseSeeds (Getenv env ''MEMBERLIST_SEEDS''),
               ml_ProbeInterval = getDurationEnv env ''MEMBERLIST_PROBE_INTERVAL'' (1 * second),
               ml_ProbeTimeout = getDurationEnv env ''MEMBERLIST_PROBE_TIMEOUT'' (500 * millisecond),
               ml_GossipInterval = getDurationEnv env ''MEMBERLIST_GOSSIP_INTERVAL'' (200 * millisecond),
               ml_PushPullInterval = getDurationEnv env ''MEMBERLIST_PUSH_PULL_INTERVAL'' (5 * second),
               ml_SuspicionMult = getIntEnv env ''MEMBERLIST_SUSPICION_MULT'' 4\<rparr>))"

definition loadElectionConfig :: "osenv \<Rightarrow> election_config" where
  "loadElectionConfig env =
     \<lparr>ElectionTimeout = getDurationEnv env ''ELECTION_TIMEOUT'' (5 * second),
      AnnounceRetryInterval = getDurationEnv env ''ELECTION_ANNOUNCE_RETRY_INTERVAL'' (200 * millisecond),
      SendRetryInterval = getDurationEnv env ''ELECTION_SEND_RETRY_INTERVAL'' (100 * millisecond)\<rparr>"

definition loadHealthConfig :: "osenv \<Rightarrow> health_config" where
  "loadHealthConfig env = \<lparr>health_Port = getEnvOrDefault env ''HEALTH_PORT'' ''8080''\<rparr>"

definition loadSchedulerConfig :: "osenv \<Rightarrow> scheduler_config" where
  "loadSchedulerConfig env =
     \<lparr>PollInterval = getDurationEnv env ''SCHEDULER_POLL_INTERVAL'' (5 * second),
      BatchSize = getIntEnv env ''SCHEDULER_BATCH_SIZE'' 10,
      Strategy_name = getEnvOrDefault env ''SCHEDULER_STRATEGY'' ''round_robin'',
      LeaseDuration = getDurationEnv env ''SCHEDULER_LEASE_DURATION'' (3 * minute)\<rparr>"

definition loadWorkerConfig :: "osenv \<Rightarrow> worker_config" where
  "loadWorkerConfig env =
     \<lparr>RPCTimeout = getDurationEnv env ''WORKER_RPC_TIMEOUT'' (5 * second),
      LeaseRenewalInterval = getDurationEnv env ''WORKER_LEASE_RENEWAL_INTERVAL'' (30 * second)\<rparr>"

definition loadLogConfig :: "osenv \<Rightarrow> log_config" where
  "loadLogConfig env =
     \<lparr>log_Level = getEnvOrDefault env ''LOG_LEVEL'' ''info'',
      log_Format = getEnvOrDefault env ''LOG_FORMAT'' ''text''\<rparr>"

definition Load :: "osenv \<Rightarrow> error + config" where
  "Load env =
     (case loadNodeConfig env of Inl e \<Rightarrow> Inl e
      | Inr node \<Rightarrow>
     (case loadServerConfig env of Inl e \<Rightarrow> Inl e
      | Inr server \<Rightarrow>
     (case loadDatabaseConfig env of Inl e \<Rightarrow> Inl e
      | Inr db \<Rightarrow>
     (case loadStorageConfig env of Inl e \<Rightarrow> Inl e
      | Inr storage \<Rightarrow>
     (case loadMemberlistConfig env of Inl e \<Rightarrow> Inl e
      | Inr ml \<Rightarrow>
          Inr \<lparr>cfg_Database = db, cfg_Log = loadLogConfig env, cfg_Node = node, cfg_Server = server,
            cfg_Storage = storage, cfg_Memberlist = ml, cfg_Election = loadElectionConfig env,
            cfg_Health = loadHealthConfig env, cfg_Scheduler = loadSchedulerConfig env,
            cfg_Worker = loadWorkerConfig env\<rparr>)))))"

section \<open>Facts\<close>

lemma require_Inr: "require env ks = Inr u \<longleftrightarrow> (\<forall>k \<in> set ks. Getenv env k \<noteq> '''')"
  by (induction ks) auto

lemma require_Inl: "require env ks = Inl e \<Longrightarrow> \<exists>k \<in> set ks. e = Required k \<and> Getenv env k = ''''"
  by (induction ks) (auto split: if_splits)

lemma parseSeeds_clean:
  assumes "s \<in> set (parseSeeds v)"
  shows "s \<noteq> ''''" and "CHR '','' \<notin> set s" and "w \<in> set space_encodings \<Longrightarrow> \<not> prefix w s \<and> \<not> suffix w s"
proof -
  obtain p where p: "p \<in> set (split_on (CHR '','') v)" "s = TrimSpace p" and ne: "s \<noteq> ''''"
    using assms by (auto simp: parseSeeds_def)
  show "s \<noteq> ''''" by (rule ne)
  show "CHR '','' \<notin> set s"
    using split_on_no_sep [OF p(1)] set_mono_sublist [OF TrimSpace_sublist [of p]] p(2) by blast
  show "\<not> prefix w s \<and> \<not> suffix w s" if "w \<in> set space_encodings"
    using TrimSpace_no_space [OF that] p(2) by simp
qed

lemma loadMemberlistConfig_Inr:
  assumes "loadMemberlistConfig env = Inr ml"
  shows "ml_AdvertiseAddr ml \<noteq> ''''" and "s \<in> set (ml_Seeds ml) \<Longrightarrow> s \<noteq> ''''"
    and "ml_Seeds ml = parseSeeds (Getenv env ''MEMBERLIST_SEEDS'')"
  using assms
  by (auto simp: loadMemberlistConfig_def getEnvOrDefault_def parseSeeds_def split: sum.splits if_splits)

lemma Load_Inr:
  assumes "Load env = Inr cfg"
  shows "node_ID (cfg_Node cfg) \<noteq> 0" and "node_Address (cfg_Node cfg) \<noteq> ''''"
    and "server_Port (cfg_Server cfg) \<noteq> ''''"
    and "ml_AdvertiseAddr (cfg_Memberlist cfg) \<noteq> ''''"
    and "s \<in> set (ml_Seeds (cfg_Memberlist cfg)) \<Longrightarrow> s \<noteq> ''''"
proof -
  note defs = Load_def loadNodeConfig_def loadServerConfig_def loadMemberlistConfig_def
  show "node_ID (cfg_Node cfg) \<noteq> 0" "node_Address (cfg_Node cfg) \<noteq> ''''"
    using assms by (auto simp: defs split: sum.splits if_splits)
  show "server_Port (cfg_Server cfg) \<noteq> ''''"
    using assms by (auto simp: defs split: sum.splits if_splits)
  have "loadMemberlistConfig env = Inr (cfg_Memberlist cfg)"
    using assms by (auto simp: Load_def split: sum.splits)
  note ml = loadMemberlistConfig_Inr [OF this]
  show "ml_AdvertiseAddr (cfg_Memberlist cfg) \<noteq> ''''" by (rule ml)
  show "s \<noteq> ''''" if "s \<in> set (ml_Seeds (cfg_Memberlist cfg))" by (rule ml(2) [OF that])
qed

section \<open>Properties\<close>

definition database_keys :: "string list" where
  "database_keys = [''POSTGRES_HOST'', ''POSTGRES_PORT'', ''POSTGRES_USER'', ''POSTGRES_PASSWORD'', ''POSTGRES_DB'',
     ''POSTGRES_SSL_MODE'']"

definition storage_keys :: "string list" where
  "storage_keys = [''STORAGE_ENDPOINT'', ''STORAGE_BUCKET'', ''STORAGE_ACCESS_KEY'', ''STORAGE_SECRET_KEY'', ''STORAGE_REGION'']"

definition memberlist_keys :: "string list" where
  "memberlist_keys = [''MEMBERLIST_BIND_ADDR'', ''MEMBERLIST_BIND_PORT'', ''MEMBERLIST_SEEDS'']"

definition required_keys :: "string list" where
  "required_keys = [''NODE_ADDRESS'', ''GRPC_PORT''] @ database_keys @ storage_keys @ memberlist_keys"

text \<open>
  C29: The configuration loads exactly when the node id is a decimal number between 1 and
  \<open>2 ^ 64 - 1\<close>, the sixteen required variables are set, and the gossip port is a number; every other
  variable, however malformed, falls back to its default.
\<close>

theorem Load_succeeds_iff:
  "(\<exists>cfg. Load env = Inr cfg) \<longleftrightarrow>
     (\<exists>i. i \<noteq> 0 \<and> ParseUint (Getenv env ''NODE_ID'') = Inr i) \<and>
     list_all (\<lambda>k. Getenv env k \<noteq> '''') required_keys \<and>
     (\<exists>p. Atoi (Getenv env ''MEMBERLIST_BIND_PORT'') = Inr p)"
proof -
  have "(\<exists>x. loadNodeConfig env = Inr x) \<longleftrightarrow>
      (\<exists>i. i \<noteq> 0 \<and> ParseUint (Getenv env ''NODE_ID'') = Inr i) \<and> Getenv env ''NODE_ADDRESS'' \<noteq> ''''"
    by (auto simp: loadNodeConfig_def split: sum.splits)
  moreover have "(\<exists>x. loadServerConfig env = Inr x) \<longleftrightarrow> Getenv env ''GRPC_PORT'' \<noteq> ''''"
    by (simp add: loadServerConfig_def)
  moreover have "(\<exists>x. loadDatabaseConfig env = Inr x) \<longleftrightarrow> list_all (\<lambda>k. Getenv env k \<noteq> '''') database_keys"
    unfolding loadDatabaseConfig_def database_keys_def [symmetric]
    using require_Inr [of env database_keys] by (auto simp: list_all_iff split: sum.splits)
  moreover have "(\<exists>x. loadStorageConfig env = Inr x) \<longleftrightarrow> list_all (\<lambda>k. Getenv env k \<noteq> '''') storage_keys"
    unfolding loadStorageConfig_def storage_keys_def [symmetric]
    using require_Inr [of env storage_keys] by (auto simp: list_all_iff split: sum.splits)
  moreover have "(\<exists>x. loadMemberlistConfig env = Inr x) \<longleftrightarrow> list_all (\<lambda>k. Getenv env k \<noteq> '''') memberlist_keys \<and>
      (\<exists>p. Atoi (Getenv env ''MEMBERLIST_BIND_PORT'') = Inr p)"
    unfolding loadMemberlistConfig_def memberlist_keys_def [symmetric]
    using require_Inr [of env memberlist_keys] by (auto simp: list_all_iff split: sum.splits)
  moreover have "(\<exists>cfg. Load env = Inr cfg) \<longleftrightarrow> (\<exists>x. loadNodeConfig env = Inr x) \<and> (\<exists>x. loadServerConfig env = Inr x) \<and>
      (\<exists>x. loadDatabaseConfig env = Inr x) \<and> (\<exists>x. loadStorageConfig env = Inr x) \<and> (\<exists>x. loadMemberlistConfig env = Inr x)"
    by (auto simp: Load_def split: sum.splits)
  ultimately show ?thesis by (simp only: required_keys_def list_all_append list.pred_inject) argo
qed

text \<open>
  C30: The seeds that are read from \<open>MEMBERLIST_SEEDS\<close> have no comma and no blank at either end, none
  is empty, and writing them back with commas and reading them again gives the same list.
\<close>

theorem parseSeeds_normal_form:
  "parseSeeds (join_with (CHR '','') (parseSeeds v)) = parseSeeds v \<and>
   list_all (\<lambda>s. s \<noteq> '''' \<and> CHR '','' \<notin> set s \<and> TrimSpace s = s) (parseSeeds v)"
proof -
  have trim: "TrimSpace s = s" if "s \<in> set (parseSeeds v)" for s
    using parseSeeds_clean(3) [OF that] by (intro TrimSpace_clean)
  have "parseSeeds (join_with (CHR '','') (parseSeeds v)) = parseSeeds v"
  proof (cases "parseSeeds v = []")
    case True
    have "TrimSpace [] = []" using TrimSpace_sublist [of "[]"] by simp
    with True show ?thesis by (simp add: parseSeeds_def)
  next
    case False
    then have "split_on (CHR '','') (join_with (CHR '','') (parseSeeds v)) = parseSeeds v"
      using parseSeeds_clean(2) by (intro split_join) auto
    moreover have "filter (\<lambda>s. s \<noteq> '''') (map TrimSpace (parseSeeds v)) = parseSeeds v"
      using trim parseSeeds_clean(1) by (simp add: map_idI filter_id_conv)
    ultimately show ?thesis by (simp add: parseSeeds_def [of "join_with _ _"])
  qed
  then show ?thesis using trim parseSeeds_clean by (auto simp: list_all_iff)
qed

end
