(* ===== verification/Paths.thy ===== *)
theory Paths
  imports GoStrings
begin

text \<open>
  The functions of Go's \<open>path/filepath\<close> the executor calls, on a Unix system: \<open>Clean\<close>, \<open>Join\<close> and
  \<open>Base\<close>. Paths are cut at \<open>/\<close> and processed component by component, as \<open>Clean\<close> documents it: empty
  and \<open>.\<close> components vanish, \<open>..\<close> removes the component before it, or vanishes after the root.
\<close>

section \<open>Clean and Join\<close>

text \<open>The components kept so far are on a stack, the last one first.\<close>

fun clean_comps :: "bool \<Rightarrow> string list \<Rightarrow> string list \<Rightarrow> string list" where
  "clean_comps rooted stack [] = rev stack"
| "clean_comps rooted stack (c # cs) =
     (if c = '''' \<or> c = ''.'' then clean_comps rooted stack cs
      else if c = ''..'' then
        (case stack of
           [] \<Rightarrow> clean_comps rooted (if rooted then [] else [''..'']) cs
         | d # ds \<Rightarrow> if d = ''..'' then clean_comps rooted (''..'' # stack) cs else clean_comps rooted ds cs)
      else clean_comps rooted (c # stack) cs)"

definition Clean :: "string \<Rightarrow> string" where
  "Clean p =
     (let rooted = prefix ''/'' p;
          cs = clean_comps rooted [] (split_on (CHR ''/'') p)
      in if rooted then CHR ''/'' # join_with (CHR ''/'') cs
         else if cs = [] then ''.'' else join_with (CHR ''/'') cs)"

text \<open>\<open>filepath.Join\<close> of two elements.\<close>

definition Join2 :: "string \<Rightarrow> string \<Rightarrow> string" where
  "Join2 a b =
     (if a \<noteq> '''' then Clean (a @ CHR ''/'' # b) else if b \<noteq> '''' then Clean b else '''')"

section \<open>Base\<close>

definition strip_slashes :: "string \<Rightarrow> string" where
  "strip_slashes p = rev (dropWhile (\<lambda>c. c = CHR ''/'') (rev p))"

definition Base :: "string \<Rightarrow> string" where
  "Base p =
     (if p = '''' then ''.''
      else let b = rev (takeWhile (\<lambda>c. c \<noteq> CHR ''/'') (rev (strip_slashes p)))
           in if b = '''' then ''/'' else b)"

text \<open>The base is never empty; it is the root or has no slash.\<close>

lemma Base_nonempty: "Base p \<noteq> ''''"
  by (simp add: Base_def Let_def)

lemma Base_no_slash: "Base p = ''/'' \<or> CHR ''/'' \<notin> set (Base p)"
  by (auto simp: Base_def Let_def dest: set_takeWhileD)

section \<open>Names in a directory\<close>

text \<open>A component that stands for itself.\<close>

definition plain_name :: "string \<Rightarrow> bool" where
  "plain_name n \<longleftrightarrow> n \<noteq> '''' \<and> n \<noteq> ''.'' \<and> n \<noteq> ''..'' \<and> CHR ''/'' \<notin> set n"

lemma clean_comps_plain:
  "\<forall>c \<in> set cs. plain_name c \<Longrightarrow> clean_comps r stack (cs @ ds) = clean_comps r (rev cs @ stack) ds"
  by (induction cs arbitrary: stack) (auto simp: plain_name_def)

text \<open>A clean absolute directory: the root followed by plain names.\<close>

definition clean_dir :: "string \<Rightarrow> bool" where
  "clean_dir d \<longleftrightarrow> (\<exists>cs. cs \<noteq> [] \<and> (\<forall>c \<in> set cs. plain_name c) \<and> d = CHR ''/'' # join_with (CHR ''/'') cs)"

lemma split_clean:
  assumes "cs \<noteq> []" and "\<forall>c \<in> set cs. plain_name c"
  shows "split_on (CHR ''/'') (CHR ''/'' # join_with (CHR ''/'') cs) = '''' # cs"
  using assms split_join [of cs "CHR ''/''"] by (simp add: plain_name_def)

lemma join_snoc: "cs \<noteq> [] \<Longrightarrow> join_with sep (cs @ [m]) = join_with sep cs @ sep # m"
  by (induction sep cs rule: join_with.induct) auto

lemma Clean_clean_dir:
  assumes "clean_dir d" and "plain_name n"
  shows "Clean (d @ CHR ''/'' # n) = d @ CHR ''/'' # n" and "clean_dir (d @ CHR ''/'' # n)"
proof -
  obtain cs where cs: "cs \<noteq> []" "\<forall>c \<in> set cs. plain_name c" "d = CHR ''/'' # join_with (CHR ''/'') cs"
    using assms(1) by (auto simp: clean_dir_def)
  have snoc: "d @ CHR ''/'' # n = CHR ''/'' # join_with (CHR ''/'') (cs @ [n])" using cs by (simp add: join_snoc)
  have "split_on (CHR ''/'') (d @ CHR ''/'' # n) = '''' # cs @ [n]"
    unfolding snoc by (rule split_clean) (use cs assms(2) in auto)
  then show "Clean (d @ CHR ''/'' # n) = d @ CHR ''/'' # n"
    using cs assms(2) clean_comps_plain [of "cs @ [n]" True "[]" "[]"]
    by (simp add: Clean_def Let_def join_snoc)
  show "clean_dir (d @ CHR ''/'' # n)"
    unfolding clean_dir_def snoc using cs assms(2) by (intro exI [of _ "cs @ [n]"]) auto
qed

lemma clean_dir_last:
  assumes "clean_dir d"
  shows "last d \<noteq> CHR ''/''"
proof -
  obtain cs where cs: "cs \<noteq> []" "\<forall>c \<in> set cs. plain_name c" "d = CHR ''/'' # join_with (CHR ''/'') cs"
    using assms by (auto simp: clean_dir_def)
  obtain ds c where c: "cs = ds @ [c]" using cs(1) by (cases cs rule: rev_cases) auto
  have "c \<noteq> ''''" "CHR ''/'' \<notin> set c" using cs(2) by (simp_all add: c plain_name_def)
  then have "last c \<noteq> CHR ''/''" using last_in_set by metis
  then show ?thesis using cs(3) \<open>c \<noteq> ''''\<close> by (cases "ds = []") (auto simp: c join_snoc)
qed

text \<open>Joining \<open>..\<close> leaves the directory.\<close>

lemma Join2_parent:
  assumes "\<forall>c \<in> set (ds @ [c]). plain_name c"
  shows "Join2 (CHR ''/'' # join_with (CHR ''/'') (ds @ [c])) ''..'' = CHR ''/'' # join_with (CHR ''/'') ds"
proof -
  let ?d = "CHR ''/'' # join_with (CHR ''/'') (ds @ [c])"
  have "split_on (CHR ''/'') (?d @ CHR ''/'' # ''..'') = '''' # (ds @ [c]) @ [''..'']"
    unfolding split_on_append by (subst split_clean) (use assms in auto)
  moreover have "clean_comps True [] ('''' # (ds @ [c]) @ [''..'']) = ds"
    using assms clean_comps_plain [of "ds @ [c]" True "[]" "[''..'']"] by (simp add: plain_name_def)
  ultimately show ?thesis by (simp add: Join2_def Clean_def Let_def)
qed

lemma Join2_plain:
  assumes "clean_dir d" and "plain_name n"
  shows "Join2 d n = d @ CHR ''/'' # n"
  using Clean_clean_dir(1) [OF assms] assms(1) by (auto simp: Join2_def clean_dir_def)

end
