(* ===== verification/Storage.thy ===== *)
theory Storage
  imports Config Paths
begin

text \<open>
  The package \<open>storage\<close> and the functions of Go's \<open>os\<close> and \<open>io\<close> that it and the executor call, on the
  host's files. Every call of the operating system takes the next element of a fault plan, so that it
  may fail. The object service is a parameter.
\<close>

section \<open>The host\<close>

text \<open>A planned failure carries the error and how much of a write is done before it.\<close>

datatype os_fault = OsOk | OsFail error nat

text \<open>
  The files with their contents and the directories, both by their path, the faults to come, the
  random strings the next temporary names are made of, and the state of the object service.
\<close>

record 'x host =
  h_files :: "string \<rightharpoonup> string"
  h_dirs :: "string list"
  h_faults :: "os_fault list"
  h_random :: "string list"
  h_service :: 'x

definition next_os :: "'x host \<Rightarrow> os_fault \<times> 'x host" where
  "next_os h = (case h_faults h of [] \<Rightarrow> (OsOk, h) | f # fs \<Rightarrow> (f, h\<lparr>h_faults := fs\<rparr>))"

definition no_such_file :: error where
  "no_such_file = Failure ''no such file or directory''"

definition is_a_directory :: error where
  "is_a_directory = Failure ''is a directory''"

text \<open>The directory of a path.\<close>

definition dir_of :: "string \<Rightarrow> string" where
  "dir_of p = rev (tl (dropWhile (\<lambda>c. c \<noteq> CHR ''/'') (rev p)))"

lemma dir_of_name: "CHR ''/'' \<notin> set n \<Longrightarrow> dir_of (d @ CHR ''/'' # n) = d"
  by (simp add: dir_of_def dropWhile_append)

text \<open>\<open>os.Create\<close>\<close>

definition os_Create :: "string \<Rightarrow> ('x host, unit) res" where
  "os_Create p h =
     (case next_os h of
        (OsFail e _, h1) \<Rightarrow> (Inl e, h1)
      | (OsOk, h1) \<Rightarrow>
          if p \<in> set (h_dirs h) then (Inl is_a_directory, h1)
          else if dir_of p \<notin> set (h_dirs h) then (Inl no_such_file, h1)
          else (Inr (), h1\<lparr>h_files := (h_files h)(p \<mapsto> '''')\<rparr>))"

text \<open>
  \<open>io.Copy\<close> to the file just created, from a body that delivers some bytes and then the end or an
  error.
\<close>

definition io_Copy :: "string \<Rightarrow> string \<times> error option \<Rightarrow> ('x host, unit) res" where
  "io_Copy p body h =
     (case next_os h of
        (OsFail e n, h1) \<Rightarrow> (Inl e, h1\<lparr>h_files := (h_files h)(p \<mapsto> take n (fst body))\<rparr>)
      | (OsOk, h1) \<Rightarrow>
          (case snd body of None \<Rightarrow> Inr () | Some e \<Rightarrow> Inl e, h1\<lparr>h_files := (h_files h)(p \<mapsto> fst body)\<rparr>))"

text \<open>\<open>os.Open\<close>: what reading the file to its end gives; a directory opens but cannot be read.\<close>

definition os_Open :: "string \<Rightarrow> ('x host, error + string) res" where
  "os_Open p h =
     (case next_os h of
        (OsFail e _, h1) \<Rightarrow> (Inl e, h1)
      | (OsOk, h1) \<Rightarrow>
          (case h_files h p of
             Some c \<Rightarrow> (Inr (Inr c), h1)
           | None \<Rightarrow> if p \<in> set (h_dirs h) then (Inr (Inl is_a_directory), h1) else (Inl no_such_file, h1)))"

text \<open>\<open>os.Stat\<close>, of which only the error is used.\<close>

definition os_Stat :: "string \<Rightarrow> ('x host, unit) res" where
  "os_Stat p h =
     (case next_os h of
        (OsFail e _, h1) \<Rightarrow> (Inl e, h1)
      | (OsOk, h1) \<Rightarrow>
          (if h_files h p \<noteq> None \<or> p \<in> set (h_dirs h) then Inr () else Inl no_such_file, h1))"

text \<open>\<open>os.MkdirTemp("", prefix + "*")\<close>: the first random name that is not taken.\<close>

definition path_exists :: "string \<Rightarrow> 'x host \<Rightarrow> bool" where
  "path_exists p h \<longleftrightarrow> h_files h p \<noteq> None \<or> p \<in> set (h_dirs h)"

definition temp_path :: "string \<Rightarrow> string \<Rightarrow> string \<Rightarrow> string" where
  "temp_path tmp pre r = (if tmp \<noteq> '''' \<and> last tmp = CHR ''/'' then tmp @ pre @ r else tmp @ CHR ''/'' # pre @ r)"

definition os_MkdirTemp :: "string \<Rightarrow> string \<Rightarrow> ('x host, string) res" where
  "os_MkdirTemp tmp pre h =
     (case next_os h of
        (OsFail e _, h1) \<Rightarrow> (Inl e, h1)
      | (OsOk, h1) \<Rightarrow>
          (case dropWhile (\<lambda>r. path_exists (temp_path tmp pre r) h) (h_random h) of
             [] \<Rightarrow> (Inl (Failure ''file exists''), h1\<lparr>h_random := []\<rparr>)
           | r # rs \<Rightarrow>
               if tmp \<in> set (h_dirs h)
               then (Inr (temp_path tmp pre r), h1\<lparr>h_random := rs, h_dirs := temp_path tmp pre r # h_dirs h\<rparr>)
               else (Inl no_such_file, h1\<lparr>h_random := rs\<rparr>)))"

text \<open>\<open>os.RemoveAll\<close>, whose error is ignored.\<close>

definition beneath :: "string \<Rightarrow> string \<Rightarrow> bool" where
  "beneath d p \<longleftrightarrow> p = d \<or> prefix (d @ ''/'') p"

definition os_RemoveAll :: "string \<Rightarrow> 'x host \<Rightarrow> 'x host" where
  "os_RemoveAll d h =
     (case next_os h of
        (OsFail _ _, h1) \<Rightarrow> h1
      | (OsOk, h1) \<Rightarrow>
          h1\<lparr>h_files := (\<lambda>p. if beneath d p then None else h_files h p),
             h_dirs := filter (\<lambda>p. \<not> beneath d p) (h_dirs h)\<rparr>)"

lemma next_os_same:
  assumes "next_os h = (f, h')"
  shows "h_files h' = h_files h" "h_dirs h' = h_dirs h" "h_random h' = h_random h"
    "h_service h' = h_service h" "h_faults h = [] \<Longrightarrow> f = OsOk \<and> h_faults h' = []"
  using assms by (auto simp: next_os_def split: list.splits)

section \<open>The client\<close>

text \<open>
  The options \<open>New\<close> hands to the S3 library, and the two calls of it the client makes: they take the
  options, the bucket and the key; \<open>GetObject\<close> returns a body, \<open>PutObject\<close> reads one.
\<close>

record s3_options =
  BaseEndpoint :: string
  s3_Region :: string
  s3_AccessKey :: string
  s3_SecretKey :: string
  UsePathStyle :: bool

record 'x s3_lib =
  GetObject :: "s3_options \<Rightarrow> string \<Rightarrow> string \<Rightarrow> 'x \<Rightarrow> (error + string \<times> error option) \<times> 'x"
  PutObject :: "s3_options \<Rightarrow> string \<Rightarrow> string \<Rightarrow> error + string \<Rightarrow> 'x \<Rightarrow> (error + unit) \<times> 'x"

record storage_client =
  cl_s3 :: s3_options
  cl_bucket :: string

definition NewStorage :: "storage_config \<Rightarrow> error + storage_client" where
  "NewStorage cfg =
     (let scheme = (if storage_UseSSL cfg then ''https'' else ''http'')
      in Inr \<lparr>cl_s3 = \<lparr>BaseEndpoint = scheme @ ''://'' @ storage_Endpoint cfg, s3_Region = storage_Region cfg,
                s3_AccessKey = storage_AccessKey cfg, s3_SecretKey = storage_SecretKey cfg, UsePathStyle = True\<rparr>,
              cl_bucket = storage_Bucket cfg\<rparr>)"

definition parseKey :: "string \<Rightarrow> string" where
  "parseKey uri =
     (if prefix ''s3://'' uri then
        let parts = split_first (CHR ''/'') (drop 5 uri)
        in if length parts = 2 then parts ! 1 else uri
      else uri)"

definition on_service :: "('x \<Rightarrow> (error + 'a) \<times> 'x) \<Rightarrow> ('x host, 'a) res" where
  "on_service f h = (case f (h_service h) of (r, x) \<Rightarrow> (r, h\<lparr>h_service := x\<rparr>))"

definition Download :: "'x s3_lib \<Rightarrow> storage_client \<Rightarrow> string \<Rightarrow> string \<Rightarrow> ('x host, unit) res" where
  "Download s3 c uri dest =
     bindE (wrapE ''storage: get object'' (on_service (GetObject s3 (cl_s3 c) (cl_bucket c) (parseKey uri))))
     (\<lambda>body. bindE (wrapE ''storage: create file'' (os_Create dest))
     (\<lambda>_. wrapE ''storage: write file'' (io_Copy dest body)))"

definition Upload :: "'x s3_lib \<Rightarrow> storage_client \<Rightarrow> string \<Rightarrow> string \<Rightarrow> ('x host, unit) res" where
  "Upload s3 c uri src =
     bindE (wrapE ''storage: open file'' (os_Open src))
     (\<lambda>f. wrapE ''storage: put object'' (on_service (PutObject s3 (cl_s3 c) (cl_bucket c) (parseKey uri) f)))"

text \<open>The interface \<open>storage.Storage\<close>, and the client as one.\<close>

record 'x storage_iface =
  sto_Download :: "string \<Rightarrow> string \<Rightarrow> ('x host, unit) res"
  sto_Upload :: "string \<Rightarrow> string \<Rightarrow> ('x host, unit) res"

definition client_iface :: "'x s3_lib \<Rightarrow> storage_client \<Rightarrow> 'x storage_iface" where
  "client_iface s3 c = \<lparr>sto_Download = Download s3 c, sto_Upload = Upload s3 c\<rparr>"

section \<open>Keys\<close>

text \<open>
  C31: The key of \<open>s3://bucket/key\<close> is everything after the first slash behind the bucket, whatever
  bytes it has; a URI of any other form is its own key.
\<close>

theorem parseKey_strips_bucket:
  assumes "CHR ''/'' \<notin> set bucket"
  shows "parseKey (''s3://'' @ bucket @ ''/'' @ key) = key \<and> parseKey (''s3://'' @ bucket) = ''s3://'' @ bucket \<and>
    (\<not> prefix ''s3://'' uri \<longrightarrow> parseKey uri = uri)"
proof -
  have "dropWhile (\<lambda>c. c \<noteq> CHR ''/'') bucket = []" using assms by auto
  then have "split_first (CHR ''/'') bucket = [bucket]" unfolding split_first_def by (simp only: list.case)
  moreover have "split_first (CHR ''/'') (bucket @ CHR ''/'' # key) = [bucket, key]"
    using assms by (simp add: split_first_def dropWhile_append takeWhile_append)
  ultimately show ?thesis by (simp add: parseKey_def)
qed

theorem parseKey_strips_witness:
  "parseKey ''s3://tasks/run/7/out.csv'' = ''run/7/out.csv'' \<and> parseKey ''s3://tasks'' = ''s3://tasks''"
  using parseKey_strips_bucket [of "''tasks''" "''run/7/out.csv''" "''x''"] by simp

end
