(* ===== verification/Executor.thy ===== *)
theory Executor
  imports Storage
begin

text \<open>
  \<open>worker/task_executor.go\<close>: \<open>Execute\<close> downloads a task's script and input into a fresh directory, runs
  the interpreter on it and uploads the file it leaves. The interpreter is a parameter that may change
  the files in any way.
\<close>

section \<open>Data\<close>

record assignment =
  as_TaskID :: string
  as_ExecutableURI :: string
  as_InputURI :: string
  as_OutputURI :: string
  as_Args :: "string list"

text \<open>What the executor sets of \<open>exec.Cmd\<close>; the arguments are those behind the program's name.\<close>

record command =
  cmd_Path :: string
  cmd_Args :: "string list"
  cmd_Dir :: string
  cmd_Env :: "string list"

text \<open>
  \<open>os.TempDir()\<close>, \<open>os.Getpid()\<close> and running a command: its error, what it writes to standard output
  and standard error, and the files and directories it leaves.
\<close>

record runtime =
  TempDir :: string
  Getpid :: nat
  run_cmd :: "command \<Rightarrow> (string \<rightharpoonup> string) \<times> string list \<Rightarrow>
    (error option \<times> string \<times> string) \<times> (string \<rightharpoonup> string) \<times> string list"

record 'x task_executor =
  ex_storage :: "'x storage_iface"
  ex_pythonPath :: string

definition NewTaskExecutor :: "'x storage_iface \<Rightarrow> string \<Rightarrow> 'x task_executor" where
  "NewTaskExecutor sto pythonPath = \<lparr>ex_storage = sto, ex_pythonPath = pythonPath\<rparr>"

section \<open>Execute\<close>

text \<open>\<open>cmd.Run()\<close> and what \<open>Execute\<close> makes of its error.\<close>

definition run_command :: "runtime \<Rightarrow> command \<Rightarrow> ('x host, unit) res" where
  "run_command rt cmd h =
     (case run_cmd rt cmd (h_files h, h_dirs h) of
        ((r, stdout, stderr), fs, ds) \<Rightarrow>
          (case r of
             None \<Rightarrow> Inr ()
           | Some e \<Rightarrow> Inl (Wrap ''execute task''
               (if stderr \<noteq> '''' then Detail e stderr else if stdout \<noteq> '''' then Detail e stdout else e)),
           h\<lparr>h_files := fs, h_dirs := ds\<rparr>))"

definition task_command :: "runtime \<Rightarrow> string \<Rightarrow> string \<Rightarrow> string list \<Rightarrow> string \<Rightarrow> string \<Rightarrow> command" where
  "task_command rt pythonPath workDir args taskInput outputPath =
     \<lparr>cmd_Path = pythonPath, cmd_Args = Join2 workDir ''task.py'' # args, cmd_Dir = workDir,
      cmd_Env = [''TASK_INPUT='' @ taskInput, ''TASK_OUTPUT='' @ outputPath,
                 ''WORKER_PID='' @ nat_digits (Getpid rt)]\<rparr>"

definition invalid_output :: "string \<Rightarrow> bool" where
  "invalid_output uri \<longleftrightarrow> uri \<noteq> '''' \<and> (Base uri = ''.'' \<or> Base uri = ''/'' \<or> Base uri = '''')"

definition output_path :: "string \<Rightarrow> string \<Rightarrow> string" where
  "output_path workDir uri = (if uri \<noteq> '''' then Join2 workDir (Base uri) else '''')"

text \<open>The body of \<open>Execute\<close> once the directory is there.\<close>

definition execute_in :: "runtime \<Rightarrow> 'x task_executor \<Rightarrow> assignment \<Rightarrow> string \<Rightarrow> ('x host, unit) res" where
  "execute_in rt e a workDir =
     (if invalid_output (as_OutputURI a) then throwE (Invalid ''invalid output_uri'')
      else bindE (wrapE ''download executable''
             (sto_Download (ex_storage e) (as_ExecutableURI a) (Join2 workDir ''task.py'')))
      (\<lambda>_. bindE
             (if as_InputURI a \<noteq> '''' then
                bindE (wrapE ''download input''
                  (sto_Download (ex_storage e) (as_InputURI a) (Join2 workDir ''input'')))
                (\<lambda>_. returnE (Join2 workDir ''input''))
              else returnE '''')
      (\<lambda>taskInput. bindE (run_command rt (task_command rt (ex_pythonPath e) workDir (as_Args a) taskInput
                            (output_path workDir (as_OutputURI a))))
      (\<lambda>_. if as_OutputURI a \<noteq> '''' then
             bindE (wrapE ''task finished but output file missing'' (os_Stat (output_path workDir (as_OutputURI a))))
             (\<lambda>_. wrapE ''upload output''
                (sto_Upload (ex_storage e) (as_OutputURI a) (output_path workDir (as_OutputURI a))))
           else returnE ()))))"

definition Execute :: "runtime \<Rightarrow> 'x task_executor \<Rightarrow> assignment \<Rightarrow> ('x host, unit) res" where
  "Execute rt e a h =
     (case wrapE ''create temp workdir'' (os_MkdirTemp (TempDir rt) ''pi-bully-task-'') h of
        (Inl err, h1) \<Rightarrow> (Inl err, h1)
      | (Inr workDir, h1) \<Rightarrow>
          (case execute_in rt e a workDir h1 of (r, h2) \<Rightarrow> (r, os_RemoveAll workDir h2)))"

section \<open>What the executor relies on\<close>

text \<open>
  A storage changes no file but the one it downloads to, and adds no faults.
\<close>

locale storage_frame =
  fixes sto :: "'x storage_iface"
  assumes Download_frame: "sto_Download sto uri dest h = (r, h') \<Longrightarrow>
      h_dirs h' = h_dirs h \<and> (\<forall>p. p \<noteq> dest \<longrightarrow> h_files h' p = h_files h p) \<and>
      (h_faults h = [] \<longrightarrow> h_faults h' = []) \<and> (r = Inr () \<longrightarrow> h_files h' dest \<noteq> None)"
    and Upload_frame: "sto_Upload sto uri src h = (r, h') \<Longrightarrow>
      h_dirs h' = h_dirs h \<and> h_files h' = h_files h \<and> (h_faults h = [] \<longrightarrow> h_faults h' = [])"
begin

lemma keeps_faults:
  "keepsE (\<lambda>h. h_faults h = []) (sto_Download sto uri dest)"
  "keepsE (\<lambda>h. h_faults h = []) (sto_Upload sto uri dest)"
  using Download_frame [OF surjective_pairing] Upload_frame [OF surjective_pairing] by (auto simp: keepsE_def)

lemma execute_in_faults:
  assumes "ex_storage e = sto"
  shows "keepsE (\<lambda>h. h_faults h = []) (execute_in rt e a d)"
proof -
  have run: "keepsE (\<lambda>h. h_faults h = []) (run_command rt c)" for c
    by (auto simp: keepsE_def run_command_def split: prod.splits)
  have stat: "keepsE (\<lambda>h. h_faults h = []) (os_Stat p)" for p
    by (auto simp: keepsE_def os_Stat_def next_os_def split: os_fault.splits)
  show ?thesis unfolding execute_in_def assms
    by (auto intro!: keepsE_intros keeps_faults run stat)
qed

text \<open>Whatever happens, nothing is left of the directory.\<close>

lemma Execute_removes:
  assumes "ex_storage e = sto" and "h_faults h = []"
    and "os_MkdirTemp (TempDir rt) ''pi-bully-task-'' h = (Inr d, h1)" and "beneath d p"
  shows "\<not> path_exists p (snd (Execute rt e a h))"
proof -
  obtain r h2 where r: "execute_in rt e a d h1 = (r, h2)" by fastforce
  have "h_faults h1 = []" using assms(2,3)
    by (auto simp: os_MkdirTemp_def next_os_def split: list.splits if_splits)
  then have "h_faults h2 = []" using keepsED [OF execute_in_faults [OF assms(1)] _ r] by simp
  then show ?thesis using assms(3,4) r
    by (auto simp: Execute_def wrapE_def os_RemoveAll_def next_os_def path_exists_def)
qed

end

lemma io_faults:
  "os_Create p h = (r, h') \<Longrightarrow> h_dirs h' = h_dirs h \<and> (\<forall>q. q \<noteq> p \<longrightarrow> h_files h' q = h_files h q) \<and>
     (h_faults h = [] \<longrightarrow> h_faults h' = [])"
  "io_Copy p b h = (r, h') \<Longrightarrow> h_dirs h' = h_dirs h \<and> (\<forall>q. q \<noteq> p \<longrightarrow> h_files h' q = h_files h q) \<and>
     (h_faults h = [] \<longrightarrow> h_faults h' = []) \<and> h_files h' p \<noteq> None"
  "on_service f h = (ra, h') \<Longrightarrow> h_dirs h' = h_dirs h \<and> h_files h' = h_files h \<and> h_faults h' = h_faults h"
  "os_Open p h = (rb, h') \<Longrightarrow> h_dirs h' = h_dirs h \<and> h_files h' = h_files h \<and> (h_faults h = [] \<longrightarrow> h_faults h' = [])"
  by (auto simp: os_Create_def io_Copy_def on_service_def os_Open_def next_os_def
      split: list.splits os_fault.splits if_splits option.splits prod.splits)

interpretation s3_client: storage_frame "client_iface s3 c" for s3 :: "'x s3_lib" and c
proof unfold_locales
  fix uri p and h :: "'x host" and r h'
  show "h_dirs h' = h_dirs h \<and> (\<forall>q. q \<noteq> p \<longrightarrow> h_files h' q = h_files h q) \<and>
      (h_faults h = [] \<longrightarrow> h_faults h' = []) \<and> (r = Inr () \<longrightarrow> h_files h' p \<noteq> None)"
    if "sto_Download (client_iface s3 c) uri p h = (r, h')"
    using that
    by (auto simp: client_iface_def Download_def bindE_def wrapE_def dest!: io_faults split: prod.splits sum.splits)
  show "h_dirs h' = h_dirs h \<and> h_files h' = h_files h \<and> (h_faults h = [] \<longrightarrow> h_faults h' = [])"
    if "sto_Upload (client_iface s3 c) uri p h = (r, h')"
    using that
    by (auto simp: client_iface_def Upload_def bindE_def wrapE_def dest!: io_faults split: prod.splits sum.splits)
qed

section \<open>Properties\<close>

text \<open>
  C19: Once the directory has been created, \<open>Execute\<close> leaves nothing of it behind, whether the task
  succeeds or fails and whatever the task wrote there, as long as the operating system does not fail.
\<close>

theorem Execute_cleans_up:
  assumes "h_faults h = []"
    and "os_MkdirTemp (TempDir rt) ''pi-bully-task-'' h = (Inr workDir, h1)"
  shows "beneath workDir p \<longrightarrow>
    \<not> path_exists p (snd (Execute rt (NewTaskExecutor (client_iface s3 c) pythonPath) a h))"
  using s3_client.Execute_removes [OF _ assms, of "NewTaskExecutor (client_iface s3 c) pythonPath"]
  by (simp add: NewTaskExecutor_def)

text \<open>
  What the library documents: an object that was read without an error is the one stored, and a
  successful \<open>PutObject\<close> stores the bytes it has read.
\<close>

definition s3_contract :: "'x s3_lib \<Rightarrow> ('x \<Rightarrow> string \<Rightarrow> string \<Rightarrow> string option) \<Rightarrow> bool" where
  "s3_contract s3 obj \<longleftrightarrow>
     (\<forall>opts b k x c x'. GetObject s3 opts b k x = (Inr (c, None), x') \<longrightarrow> obj x b k = Some c \<and> obj x' = obj x) \<and>
     (\<forall>opts b k body x u x'. PutObject s3 opts b k body x = (Inr u, x') \<longrightarrow>
        (\<exists>c. body = Inr c \<and> obj x' = (obj x)(b := (obj x b)(k \<mapsto> c))))"

lemma os_Inr:
  "os_Create p h = (Inr u, h') \<Longrightarrow> h_files h' = (h_files h)(p \<mapsto> '''') \<and> h_service h' = h_service h"
  "io_Copy p b h = (Inr u, h') \<Longrightarrow> snd b = None \<and> h_files h' = (h_files h)(p \<mapsto> fst b) \<and> h_service h' = h_service h"
  "os_Stat p h = (Inr u, h') \<Longrightarrow> path_exists p h \<and> h_files h' = h_files h \<and> h_service h' = h_service h"
  "os_Open p h = (Inr (Inr x), h') \<Longrightarrow> h_files h p = Some x \<and> h_service h' = h_service h"
  by (auto simp: os_Create_def io_Copy_def os_Stat_def os_Open_def path_exists_def next_os_def
      split: list.splits os_fault.splits if_splits option.splits)

lemma on_service_Inr:
  "on_service f h = (Inr b, h') \<longleftrightarrow> (\<exists>x. f (h_service h) = (Inr b, x) \<and> h' = h\<lparr>h_service := x\<rparr>)"
  by (auto simp: on_service_def split: prod.splits)

lemma Download_Inr:
  assumes s3: "s3_contract s3 obj" and run: "Download s3 c uri dest h = (Inr u, h')"
  shows "\<exists>x. obj (h_service h) (cl_bucket c) (parseKey uri) = Some x \<and> h_files h' = (h_files h)(dest \<mapsto> x) \<and>
    obj (h_service h') = obj (h_service h)"
proof -
  from run obtain body x h2 where
      get: "GetObject s3 (cl_s3 c) (cl_bucket c) (parseKey uri) (h_service h) = (Inr body, x)"
    and cr: "os_Create dest (h\<lparr>h_service := x\<rparr>) = (Inr (), h2)" and cp: "io_Copy dest body h2 = (Inr u, h')"
    by (auto simp: Download_def res_simps on_service_Inr)
  have "body = (fst body, None)" using os_Inr(2) [OF cp] by (metis prod.collapse)
  with get s3 have "obj (h_service h) (cl_bucket c) (parseKey uri) = Some (fst body)" "obj x = obj (h_service h)"
    unfolding s3_contract_def by metis+
  with os_Inr(1) [OF cr] os_Inr(2) [OF cp] show ?thesis by auto
qed

lemma Upload_Inr:
  assumes s3: "s3_contract s3 obj" and run: "Upload s3 c uri src h = (Inr u, h')"
  shows "\<exists>x. h_files h src = Some x \<and>
    obj (h_service h') = (obj (h_service h))(cl_bucket c := (obj (h_service h) (cl_bucket c))(parseKey uri \<mapsto> x))"
proof -
  from run obtain body h1 x where op: "os_Open src h = (Inr body, h1)"
    and put: "PutObject s3 (cl_s3 c) (cl_bucket c) (parseKey uri) body (h_service h1) = (Inr u, x)"
    and h': "h' = h1\<lparr>h_service := x\<rparr>"
    by (auto simp: Upload_def res_simps on_service_Inr)
  from s3 put obtain y where y: "body = Inr y"
      "obj x = (obj (h_service h1))(cl_bucket c := (obj (h_service h1) (cl_bucket c))(parseKey uri \<mapsto> y))"
    unfolding s3_contract_def by blast
  with os_Inr(4) [of src h y h1] op h' show ?thesis by auto
qed

text \<open>The run a successful \<open>Execute\<close> has made.\<close>

definition ran_task :: "runtime \<Rightarrow> command \<Rightarrow> (string \<rightharpoonup> string) \<Rightarrow> (string \<rightharpoonup> string) \<Rightarrow> bool" where
  "ran_task rt cmd before after \<longleftrightarrow>
     (\<exists>ds ds' out err. run_cmd rt cmd (before, ds) = ((None, out, err), after, ds'))"

lemma run_command_Inr:
  assumes "run_command rt cmd h = (Inr u, h')"
  shows "ran_task rt cmd (h_files h) (h_files h') \<and> h_service h' = h_service h"
proof -
  obtain r out err fs ds where c: "run_cmd rt cmd (h_files h, h_dirs h) = ((r, out, err), fs, ds)"
    by (metis prod.collapse)
  then have "r = None" and "h' = h\<lparr>h_files := fs, h_dirs := ds\<rparr>"
    using assms by (auto simp: run_command_def split: option.splits)
  with c show ?thesis unfolding ran_task_def by auto
qed

definition input_path :: "string \<Rightarrow> string \<Rightarrow> string" where
  "input_path workDir uri = (if uri \<noteq> '''' then Join2 workDir ''input'' else '''')"

text \<open>
  The run of a task with an output: the script and the input it finds are the objects of the
  assignment, and the object stored afterwards is the file it leaves.
\<close>

definition faithful_run ::
  "runtime \<Rightarrow> string \<Rightarrow> assignment \<Rightarrow> string \<Rightarrow> (string \<rightharpoonup> string) \<Rightarrow> (string \<rightharpoonup> string) \<Rightarrow> bool" where
  "faithful_run rt python a d objs objs' \<longleftrightarrow>
     (\<exists>before after result.
        ran_task rt (task_command rt python d (as_Args a) (input_path d (as_InputURI a))
          (output_path d (as_OutputURI a))) before after \<and>
        before (Join2 d ''task.py'') = objs (parseKey (as_ExecutableURI a)) \<and> before (Join2 d ''task.py'') \<noteq> None \<and>
        (as_InputURI a = '''' \<or> before (Join2 d ''input'') = objs (parseKey (as_InputURI a))) \<and>
        after (output_path d (as_OutputURI a)) = Some result \<and>
        objs' = objs(parseKey (as_OutputURI a) \<mapsto> result))"

lemma execute_in_Inr:
  assumes s3: "s3_contract s3 obj" and e: "ex_storage e = client_iface s3 c"
    and run: "execute_in rt e a d h = (Inr u, h')" and out: "as_OutputURI a \<noteq> ''''"
    and d: "Join2 d ''input'' \<noteq> Join2 d ''task.py''"
  shows "faithful_run rt (ex_pythonPath e) a d (obj (h_service h) (cl_bucket c)) (obj (h_service h') (cl_bucket c))"
proof -
  let ?p = "output_path d (as_OutputURI a)" and ?i = "input_path d (as_InputURI a)"
  from run e out obtain h1 h2 h3 h4 where
      dl: "Download s3 c (as_ExecutableURI a) (Join2 d ''task.py'') h = (Inr (), h1)"
    and inp: "(if as_InputURI a \<noteq> '''' then Download s3 c (as_InputURI a) (Join2 d ''input'') else returnE ()) h1 = (Inr (), h2)"
    and cmd: "run_command rt (task_command rt (ex_pythonPath e) d (as_Args a) ?i ?p) h2 = (Inr (), h3)"
    and stat: "os_Stat ?p h3 = (Inr (), h4)"
    and up: "Upload s3 c (as_OutputURI a) ?p h4 = (Inr (), h')"
    by (auto simp: execute_in_def input_path_def res_simps client_iface_def split: if_splits)
  obtain script where script: "obj (h_service h) (cl_bucket c) (parseKey (as_ExecutableURI a)) = Some script"
      "h_files h1 = (h_files h)(Join2 d ''task.py'' \<mapsto> script)" "obj (h_service h1) = obj (h_service h)"
    using Download_Inr [OF s3 dl] by blast
  have input: "h_files h2 (Join2 d ''task.py'') = Some script" "obj (h_service h2) = obj (h_service h)"
      "as_InputURI a = '''' \<or> h_files h2 (Join2 d ''input'') = obj (h_service h) (cl_bucket c) (parseKey (as_InputURI a))"
    using inp Download_Inr [OF s3, of c "as_InputURI a" "Join2 d ''input''" h1 "()" h2] script(2,3) d
    by (auto simp: res_simps split: if_splits)
  note h3 = run_command_Inr [OF cmd] and h4 = os_Inr(3) [OF stat]
  obtain result where "h_files h4 ?p = Some result"
      "obj (h_service h') = (obj (h_service h4))(cl_bucket c := (obj (h_service h4) (cl_bucket c))(parseKey (as_OutputURI a) \<mapsto> result))"
    using Upload_Inr [OF s3 up] by blast
  then show ?thesis unfolding faithful_run_def using h3 h4 script(1) input
    by (intro exI [of _ "h_files h2"] exI [of _ "h_files h3"] exI [of _ result]) simp
qed

lemma MkdirTemp_clean:
  assumes "os_MkdirTemp tmp ''pi-bully-task-'' h = (Inr d, h1)" and "clean_dir tmp"
    and "\<forall>r \<in> set (h_random h). CHR ''/'' \<notin> set r"
  shows "clean_dir d" and "h_service h1 = h_service h" and "\<not> path_exists d h"
proof -
  from assms(1) obtain r rs where r: "dropWhile (\<lambda>r. path_exists (temp_path tmp ''pi-bully-task-'' r) h) (h_random h) = r # rs"
    and d: "d = temp_path tmp ''pi-bully-task-'' r" "h_service h1 = h_service h"
    by (auto simp: os_MkdirTemp_def next_os_def split: list.splits os_fault.splits if_splits)
  from r have "r \<in> set (h_random h)" by (metis list.set_intros(1) set_dropWhileD)
  then have "plain_name (''pi-bully-task-'' @ r)" using assms(3) by (simp add: plain_name_def)
  moreover have "tmp \<noteq> ''''" "last tmp \<noteq> CHR ''/''" using assms(2) clean_dir_last by (auto simp: clean_dir_def)
  ultimately show "clean_dir d" using Clean_clean_dir(2) [OF assms(2)] by (simp add: d temp_path_def)
  from r show "\<not> path_exists d h" by (auto simp: d dropWhile_eq_Cons_conv)
qed (use assms(1) in \<open>auto simp: os_MkdirTemp_def next_os_def split: list.splits os_fault.splits if_splits\<close>)

text \<open>
  C18: A successful \<open>Execute\<close> of a task with an output has run the interpreter, without an error, on
  the script and input stored under the assignment's keys, and has stored under the output's key
  exactly the file the task left at the path it was given.
\<close>

theorem Execute_stores_result:
  assumes "s3_contract s3 obj" and "clean_dir (TempDir rt)" and "\<forall>r \<in> set (h_random h). CHR ''/'' \<notin> set r"
    and "as_OutputURI a \<noteq> ''''"
    and "Execute rt (NewTaskExecutor (client_iface s3 c) pythonPath) a h = (Inr u, h')"
  shows "\<exists>workDir. clean_dir workDir \<and> \<not> path_exists workDir h \<and>
    faithful_run rt pythonPath a workDir (obj (h_service h) (cl_bucket c)) (obj (h_service h') (cl_bucket c))"
proof -
  let ?e = "NewTaskExecutor (client_iface s3 c) pythonPath"
  from assms(5) obtain d h1 h2 where mk: "os_MkdirTemp (TempDir rt) ''pi-bully-task-'' h = (Inr d, h1)"
    and run: "execute_in rt ?e a d h1 = (Inr u, h2)" and h': "h' = os_RemoveAll d h2"
    by (auto simp: Execute_def wrapE_def split: prod.splits sum.splits)
  note d = MkdirTemp_clean [OF mk assms(2,3)]
  have e: "ex_storage ?e = client_iface s3 c" by (simp add: NewTaskExecutor_def)
  have "Join2 d ''input'' \<noteq> Join2 d ''task.py''"
    using Join2_plain [OF d(1), of "''input''"] Join2_plain [OF d(1), of "''task.py''"] by (simp add: plain_name_def)
  from execute_in_Inr [OF assms(1) e run assms(4) this] d
  have "faithful_run rt pythonPath a d (obj (h_service h) (cl_bucket c)) (obj (h_service h2) (cl_bucket c))"
    by (simp add: NewTaskExecutor_def)
  moreover have "h_service h' = h_service h2" by (auto simp: h' os_RemoveAll_def next_os_def split: list.splits os_fault.splits)
  ultimately show ?thesis using d by auto
qed

section \<open>Examples\<close>

text \<open>A service that keeps its promise, a program that writes its output and one that does not.\<close>

definition demo_s3 :: "(string \<Rightarrow> string \<Rightarrow> string option) s3_lib" where
  "demo_s3 = \<lparr>GetObject = (\<lambda>opts b k x. case x b k of None \<Rightarrow> (Inl (Failure ''NoSuchKey''), x) | Some c \<Rightarrow> (Inr (c, None), x)),
     PutObject = (\<lambda>opts b k body x. case body of Inl e \<Rightarrow> (Inl e, x) | Inr c \<Rightarrow> (Inr (), x(b := (x b)(k \<mapsto> c))))\<rparr>"

lemma demo_s3_contract: "s3_contract demo_s3 (\<lambda>x. x)"
  by (auto simp: s3_contract_def demo_s3_def split: option.splits sum.splits)

definition demo_rt :: runtime where
  "demo_rt = \<lparr>TempDir = ''/tmp'', Getpid = 7,
     run_cmd = (\<lambda>cmd (fs, ds). ((None, '''', ''''), fs(drop 12 (cmd_Env cmd ! 1) \<mapsto> ''42''), ds))\<rparr>"

definition silent_rt :: runtime where
  "silent_rt = \<lparr>TempDir = ''/tmp'', Getpid = 7, run_cmd = (\<lambda>cmd (fs, ds). ((None, '''', ''''), fs, ds))\<rparr>"

definition demo_host :: "(string \<Rightarrow> string \<Rightarrow> string option) host" where
  "demo_host = \<lparr>h_files = Map.empty, h_dirs = [''/tmp''], h_faults = [], h_random = [''x1''],
     h_service = (\<lambda>b k. if b = ''b'' \<and> k = ''sum.py'' then Some ''script'' else None)\<rparr>"

definition demo_assignment :: "string \<Rightarrow> assignment" where
  "demo_assignment out = \<lparr>as_TaskID = ''t'', as_ExecutableURI = ''s3://b/sum.py'', as_InputURI = '''',
     as_OutputURI = out, as_Args = []\<rparr>"

definition demo_executor :: "(string \<Rightarrow> string \<Rightarrow> string option) task_executor" where
  "demo_executor = NewTaskExecutor (client_iface demo_s3 \<lparr>cl_s3 = \<lparr>BaseEndpoint = '''', s3_Region = '''', s3_AccessKey = '''',
      s3_SecretKey = '''', UsePathStyle = True\<rparr>, cl_bucket = ''b''\<rparr>) ''python3''"

lemma demo_clean: "clean_dir ''/tmp''"
  unfolding clean_dir_def by (rule exI [of _ "[''tmp'']"]) (simp add: plain_name_def)

lemma demo_mkdir:
  "fst (os_MkdirTemp (TempDir demo_rt) ''pi-bully-task-'' demo_host) = Inr ''/tmp/pi-bully-task-x1''"
  by code_simp

lemma demo_Execute:
  "fst (Execute demo_rt demo_executor (demo_assignment ''s3://b/out.txt'') demo_host) = Inr ()"
  by code_simp

theorem Execute_cleans_up_witness:
  "\<not> path_exists ''/tmp/pi-bully-task-x1/task.py''
    (snd (Execute demo_rt demo_executor (demo_assignment ''s3://b/out.txt'') demo_host))"
proof -
  obtain h1 where "os_MkdirTemp (TempDir demo_rt) ''pi-bully-task-'' demo_host = (Inr ''/tmp/pi-bully-task-x1'', h1)"
    using demo_mkdir by (metis prod.collapse)
  from Execute_cleans_up [OF _ this, of "''/tmp/pi-bully-task-x1/task.py''" demo_s3]
  show ?thesis unfolding demo_executor_def by (simp add: demo_host_def beneath_def)
qed

theorem Execute_stores_result_witness:
  "\<exists>workDir h'. Execute demo_rt demo_executor (demo_assignment ''s3://b/out.txt'') demo_host = (Inr (), h') \<and>
    faithful_run demo_rt ''python3'' (demo_assignment ''s3://b/out.txt'') workDir (h_service demo_host ''b'') (h_service h' ''b'')"
proof -
  obtain h' where h': "Execute demo_rt demo_executor (demo_assignment ''s3://b/out.txt'') demo_host = (Inr (), h')"
    using demo_Execute by (metis prod.collapse)
  have "clean_dir (TempDir demo_rt)" "\<forall>r \<in> set (h_random demo_host). CHR ''/'' \<notin> set r"
    "as_OutputURI (demo_assignment ''s3://b/out.txt'') \<noteq> ''''"
    by (simp_all add: demo_rt_def demo_clean demo_host_def demo_assignment_def)
  from Execute_stores_result [OF demo_s3_contract this h' [unfolded demo_executor_def]] h'
  show ?thesis by (auto simp: demo_executor_def)
qed


end
