(* ===== verification/Worker.thy ===== *)
theory Worker
  imports Executor
begin

text \<open>
  \<open>worker/engine.go\<close>: the worker takes an assignment, tells the leader that it runs it, executes it
  while a second goroutine renews the lease, and reports the result. The election engine, the cluster,
  the gRPC client and the executor are interfaces in the code; here they are functions on an arbitrary
  world \<open>'w\<close>, which may have changed by itself between any two calls.
\<close>

section \<open>The messages of proto/bully.proto\<close>

record renew_request =
  rn_TaskId :: string
  rn_WorkerId :: uint64

record running_request =
  mr_TaskId :: string
  mr_WorkerId :: uint64

text \<open>\<open>TaskOutcome\<close> is an open enumeration: a message may carry any number.\<close>

definition SUCCESS :: int where "SUCCESS = 1"
definition FAILED :: int where "FAILED = 2"

record report_request =
  rr_TaskId :: string
  rr_WorkerId :: uint64
  rr_Outcome :: int
  rr_Error :: string

section \<open>The engine\<close>

record 'w worker_deps =
  wk_CurrentLeader :: "'w \<Rightarrow> uint64 \<times> 'w"
  wk_IsLeader :: "'w \<Rightarrow> bool \<times> 'w"
  wk_MemberAddr :: "uint64 \<Rightarrow> 'w \<Rightarrow> string option \<times> 'w"
  wk_RenewLease :: "string \<Rightarrow> renew_request \<Rightarrow> ('w, unit) res"
  wk_MarkRunning :: "string \<Rightarrow> running_request \<Rightarrow> ('w, unit) res"
  wk_ReportResult :: "string \<Rightarrow> report_request \<Rightarrow> ('w, unit) res"
  wk_Execute :: "assignment \<Rightarrow> ('w, unit) res"

record worker_engine =
  wk_workerID :: uint64
  wk_leaseRenewEvery :: duration
  wk_rpcTimeout :: duration

definition NewWorker :: "uint64 \<Rightarrow> duration \<Rightarrow> duration \<Rightarrow> worker_engine" where
  "NewWorker workerID leaseRenewEvery rpcTimeout =
     \<lparr>wk_workerID = workerID, wk_leaseRenewEvery = leaseRenewEvery, wk_rpcTimeout = rpcTimeout\<rparr>"

text \<open>
  \<open>err.Error()\<close>. The identifiers that the messages of the store print are left to \<open>show_uuid\<close>.
\<close>

fun error_text :: "(uuid \<Rightarrow> string) \<Rightarrow> error \<Rightarrow> string" where
  "error_text show_uuid (Failure s) = s"
| "error_text show_uuid (Wrap c e) = c @ '': '' @ error_text show_uuid e"
| "error_text show_uuid (Detail e s) = error_text show_uuid e @ '': '' @ s"
| "error_text show_uuid (NotLeased t w) = ''task '' @ show_uuid t @ '' is not leased to worker '' @ FormatUint w"
| "error_text show_uuid (InvalidStatus t s) = ''task '' @ show_uuid t @ '' has invalid latest status '' @ s"
| "error_text show_uuid (Invalid s) = s"
| "error_text show_uuid (Required s) = s @ '' is required''"
| "error_text show_uuid (StatusError code msg) = ''rpc error: code = '' @ code @ '' desc = '' @ msg"

definition leaderAddr :: "'w worker_deps \<Rightarrow> 'w \<Rightarrow> string option \<times> 'w" where
  "leaderAddr d w =
     (case wk_CurrentLeader d w of
        (leaderID, w1) \<Rightarrow>
          if leaderID = 0 then (None, w1)
          else case wk_IsLeader d w1 of
            (self, w2) \<Rightarrow> if self then (None, w2) else wk_MemberAddr d leaderID w2)"

text \<open>How \<open>runTask\<close> ends, as it logs it.\<close>

datatype run_end =
    NoLeaderAtStart
  | NotStarted error
  | FailureUnreported error
  | FailureReported error "error option"
  | ResultUnreported
  | ReportFailed error
  | TaskCompleted

definition runTask :: "'w worker_deps \<Rightarrow> (uuid \<Rightarrow> string) \<Rightarrow> worker_engine \<Rightarrow> assignment \<Rightarrow> 'w \<Rightarrow> run_end \<times> 'w" where
  "runTask d show_uuid e a w =
     (case leaderAddr d w of
        (None, w1) \<Rightarrow> (NoLeaderAtStart, w1)
      | (Some addr, w1) \<Rightarrow>
     (case wk_MarkRunning d addr \<lparr>mr_TaskId = as_TaskID a, mr_WorkerId = wk_workerID e\<rparr> w1 of
        (Inl err, w2) \<Rightarrow> (NotStarted err, w2)
      | (Inr _, w2) \<Rightarrow>
     (case wk_Execute d a w2 of
        (Inl err, w3) \<Rightarrow>
          (case leaderAddr d w3 of
             (None, w4) \<Rightarrow> (FailureUnreported err, w4)
           | (Some addr', w4) \<Rightarrow>
               (case wk_ReportResult d addr' \<lparr>rr_TaskId = as_TaskID a, rr_WorkerId = wk_workerID e,
                    rr_Outcome = FAILED, rr_Error = error_text show_uuid err\<rparr> w4 of
                  (Inl reportErr, w5) \<Rightarrow> (FailureReported err (Some reportErr), w5)
                | (Inr _, w5) \<Rightarrow> (FailureReported err None, w5)))
      | (Inr _, w3) \<Rightarrow>
          (case leaderAddr d w3 of
             (None, w4) \<Rightarrow> (ResultUnreported, w4)
           | (Some addr', w4) \<Rightarrow>
               (case wk_ReportResult d addr' \<lparr>rr_TaskId = as_TaskID a, rr_WorkerId = wk_workerID e,
                    rr_Outcome = SUCCESS, rr_Error = ''''\<rparr> w4 of
                  (Inl err, w5) \<Rightarrow> (ReportFailed err, w5)
                | (Inr _, w5) \<Rightarrow> (TaskCompleted, w5))))))"

text \<open>
  The goroutine \<open>renewLoop\<close>: \<open>time.NewTicker\<close> panics on an interval that is not positive; the loop
  follows the branches its \<open>select\<close> takes, and has returned once the task's context is done.
\<close>

definition renew_once :: "'w worker_deps \<Rightarrow> worker_engine \<Rightarrow> string \<Rightarrow> 'w \<Rightarrow> 'w" where
  "renew_once d e taskID w =
     (case leaderAddr d w of
        (None, w1) \<Rightarrow> w1
      | (Some addr, w1) \<Rightarrow> snd (wk_RenewLease d addr \<lparr>rn_TaskId = taskID, rn_WorkerId = wk_workerID e\<rparr> w1))"

datatype loop_event = Tick | CtxDone
datatype loop_end = Panicked | Waiting | Returned

fun renew_select :: "'w worker_deps \<Rightarrow> worker_engine \<Rightarrow> string \<Rightarrow> loop_event list \<Rightarrow> 'w \<Rightarrow> loop_end \<times> 'w" where
  "renew_select d e taskID [] w = (Waiting, w)"
| "renew_select d e taskID (Tick # evs) w = renew_select d e taskID evs (renew_once d e taskID w)"
| "renew_select d e taskID (CtxDone # evs) w = (Returned, w)"

definition renewLoop :: "'w worker_deps \<Rightarrow> worker_engine \<Rightarrow> string \<Rightarrow> loop_event list \<Rightarrow> 'w \<Rightarrow> loop_end \<times> 'w" where
  "renewLoop d e taskID evs w =
     (if wk_leaseRenewEvery e \<le> 0 then (Panicked, w) else renew_select d e taskID evs w)"

text \<open>\<open>HandleAssignment\<close> starts a goroutine; the assignments under way are the node's running tasks.\<close>

definition HandleAssignment :: "assignment \<Rightarrow> assignment list \<Rightarrow> assignment list" where
  "HandleAssignment a running = running @ [a]"

section \<open>What the worker relies on\<close>

text \<open>
  A state property and a preorder that every call the worker makes respects are respected by
  \<open>runTask\<close> and by the renewals.
\<close>

locale worker_env =
  fixes d :: "'w worker_deps" and ok :: "'w \<Rightarrow> bool" and le :: "'w \<Rightarrow> 'w \<Rightarrow> bool"
  assumes le_refl: "le w w" and le_trans: "le u v \<Longrightarrow> le v w \<Longrightarrow> le u w"
    and CurrentLeader_ok: "ok w \<Longrightarrow> wk_CurrentLeader d w = (l, w') \<Longrightarrow> ok w' \<and> le w w'"
    and IsLeader_ok: "ok w \<Longrightarrow> wk_IsLeader d w = (b, w') \<Longrightarrow> ok w' \<and> le w w'"
    and MemberAddr_ok: "ok w \<Longrightarrow> wk_MemberAddr d i w = (ad, w') \<Longrightarrow> ok w' \<and> le w w'"
    and RenewLease_ok: "ok w \<Longrightarrow> wk_RenewLease d addr rn w = (r, w') \<Longrightarrow> ok w' \<and> le w w'"
    and MarkRunning_ok: "ok w \<Longrightarrow> wk_MarkRunning d addr mr w = (r, w') \<Longrightarrow> ok w' \<and> le w w'"
    and ReportResult_ok: "ok w \<Longrightarrow> wk_ReportResult d addr rr w = (r, w') \<Longrightarrow> ok w' \<and> le w w'"
    and Execute_ok: "ok w \<Longrightarrow> wk_Execute d a w = (r, w') \<Longrightarrow> ok w' \<and> le w w'"
begin

lemma leaderAddr_ok:
  assumes "ok w" and "leaderAddr d w = (r, w')"
  shows "ok w' \<and> le w w'"
proof -
  obtain l w1 where 1: "wk_CurrentLeader d w = (l, w1)" by fastforce
  obtain b w2 where 2: "wk_IsLeader d w1 = (b, w2)" by fastforce
  note k1 = CurrentLeader_ok [OF assms(1) 1]
  have k2: "ok w2 \<and> le w w2" using IsLeader_ok [OF _ 2] k1 le_trans by blast
  have k3: "ok w3 \<and> le w w3" if "wk_MemberAddr d l w2 = (ad, w3)" for ad w3
    using MemberAddr_ok [OF _ that] k2 le_trans by blast
  show ?thesis using assms(2) k1 k2 k3 by (auto simp: leaderAddr_def 1 2 split: if_splits)
qed

lemma runTask_ok:
  assumes "ok w" and "runTask d show_uuid e a w = (r, w')"
  shows "ok w' \<and> le w w'"
proof -
  obtain ra w1 where 1: "leaderAddr d w = (ra, w1)" by fastforce
  note k1 = leaderAddr_ok [OF assms(1) 1]
  show ?thesis
  proof (cases ra)
    case None
    with 1 k1 assms(2) show ?thesis by (simp add: runTask_def)
  next
    case (Some addr)
    obtain rm w2 where 2: "wk_MarkRunning d addr \<lparr>mr_TaskId = as_TaskID a, mr_WorkerId = wk_workerID e\<rparr> w1 = (rm, w2)"
      by fastforce
    obtain rx w3 where 3: "wk_Execute d a w2 = (rx, w3)" by fastforce
    obtain rb w4 where 4: "leaderAddr d w3 = (rb, w4)" by fastforce
    have k2: "ok w2 \<and> le w w2" using MarkRunning_ok [OF _ 2] k1 le_trans by blast
    have k3: "ok w3 \<and> le w w3" using Execute_ok [OF _ 3] k2 le_trans by blast
    have k4: "ok w4 \<and> le w w4" using leaderAddr_ok [OF _ 4] k3 le_trans by blast
    have k5: "ok w5 \<and> le w w5" if "wk_ReportResult d addr' rr w4 = (r5, w5)" for addr' rr r5 w5
      using ReportResult_ok [OF _ that] k4 le_trans by blast
    show ?thesis using assms(2) 1 2 3 4 Some k2 k4 k5
      by (auto simp: runTask_def split: sum.splits option.splits prod.splits)
  qed
qed

lemma renew_once_ok:
  assumes "ok w"
  shows "ok (renew_once d e taskID w) \<and> le w (renew_once d e taskID w)"
proof -
  obtain r w1 where 1: "leaderAddr d w = (r, w1)" by fastforce
  note k1 = leaderAddr_ok [OF assms 1]
  show ?thesis
  proof (cases r)
    case (Some addr)
    then show ?thesis using 1 k1 RenewLease_ok [OF conjunct1 [OF k1] surjective_pairing] le_trans
      unfolding renew_once_def by auto
  qed (use 1 k1 in \<open>simp add: renew_once_def\<close>)
qed

lemma renewLoop_ok:
  assumes "ok w" and "renewLoop d e taskID evs w = (r, w')"
  shows "ok w' \<and> le w w'"
proof -
  have "ok (snd (renew_select d e taskID evs w)) \<and> le w (snd (renew_select d e taskID evs w))" if "ok w" for w
    using that
  proof (induction evs arbitrary: w)
    case (Cons ev evs)
    show ?case
    proof (cases ev)
      case Tick
      then show ?thesis using renew_once_ok [OF Cons.prems] Cons.IH le_trans by (metis renew_select.simps(2))
    qed (simp add: Cons.prems le_refl)
  qed (simp add: le_refl)
  from this [OF assms(1)] assms show ?thesis by (auto simp: renewLoop_def le_refl split: if_splits)
qed

end

end
