(* ===== verification/Channel.thy ===== *)
theory Channel
  imports Prelude
begin

text \<open>
  Go's buffered channels, as the program uses them: \<open>make(chan T, n)\<close>, the blocking send \<open>c <- x\<close>, the
  send in a \<open>select\<close> with an empty \<open>default\<close> branch, which drops the value when the buffer is full,
  and the receive. The interface is the locale \<open>bounded_channel\<close>; the cluster's event channel and the
  election engine's two channels are instances of it.
\<close>

section \<open>The interface\<close>

locale bounded_channel =
  fixes contents :: "'c \<Rightarrow> 'a list"
    and capacity :: "'c \<Rightarrow> nat"
    and trysend :: "'a \<Rightarrow> 'c \<Rightarrow> 'c"
    and blocksend :: "'a \<Rightarrow> 'c \<Rightarrow> 'c option"
    and receive :: "'c \<Rightarrow> ('a \<times> 'c) option"
  assumes trysend_contents: "contents (trysend x c) =
      (if length (contents c) < capacity c then contents c @ [x] else contents c)"
    and trysend_capacity: "capacity (trysend x c) = capacity c"
    and blocksend_iff: "blocksend x c =
      (if length (contents c) < capacity c then Some (trysend x c) else None)"
    and receive_None: "receive c = None \<longleftrightarrow> contents c = []"
    and receive_Some: "receive c = Some (x, c') \<Longrightarrow> contents c = x # contents c' \<and> capacity c' = capacity c"
begin

lemma bounded_trysend:
  "length (contents c) \<le> capacity c \<Longrightarrow> length (contents (trysend x c)) \<le> capacity (trysend x c)"
  by (simp add: trysend_contents trysend_capacity)

lemma bounded_blocksend:
  "length (contents c) \<le> capacity c \<Longrightarrow> blocksend x c = Some c' \<Longrightarrow>
     length (contents c') \<le> capacity c' \<and> contents c' = contents c @ [x] \<and> capacity c' = capacity c"
  by (auto simp: blocksend_iff trysend_contents trysend_capacity split: if_splits)

lemma bounded_receive:
  "length (contents c) \<le> capacity c \<Longrightarrow> receive c = Some (x, c') \<Longrightarrow> length (contents c') \<le> capacity c'"
  using receive_Some [of c x c'] by simp

text \<open>With no receiver, the channel keeps the first values that fit and drops the others.\<close>

lemma fold_trysend_capacity: "capacity (fold trysend xs c) = capacity c"
  by (induction xs arbitrary: c) (simp_all add: trysend_capacity)

lemma fold_trysend_contents:
  assumes "length (contents c) \<le> capacity c"
  shows "contents (fold trysend xs c) = take (capacity c) (contents c @ xs)"
  using assms
proof (induction xs arbitrary: c)
  case Nil
  then show ?case by simp
next
  case (Cons x xs)
  from Cons.IH [OF bounded_trysend [OF Cons.prems], of x] Cons.prems show ?case
    by (auto simp: trysend_contents trysend_capacity take_Cons')
qed

text \<open>A value is sent without loss exactly when the blocking send would not have blocked.\<close>

lemma trysend_kept: "contents (trysend x c) = contents c @ [x] \<longleftrightarrow> (\<exists>c'. blocksend x c = Some c')"
  by (auto simp: trysend_contents blocksend_iff)

lemma blocksend_full:
  "length (contents c) \<le> capacity c \<Longrightarrow> blocksend x c = None \<longleftrightarrow> length (contents c) = capacity c"
  by (auto simp: blocksend_iff)

end

section \<open>The channels\<close>

record 'a chan =
  chan_cap :: nat
  chan_buf :: "'a list"

definition make_chan :: "nat \<Rightarrow> 'a chan" where
  "make_chan n = \<lparr>chan_cap = n, chan_buf = []\<rparr>"

definition chan_try_send :: "'a \<Rightarrow> 'a chan \<Rightarrow> 'a chan" where
  "chan_try_send x c = (if length (chan_buf c) < chan_cap c then c\<lparr>chan_buf := chan_buf c @ [x]\<rparr> else c)"

definition chan_send :: "'a \<Rightarrow> 'a chan \<Rightarrow> 'a chan option" where
  "chan_send x c =
     (if length (chan_buf c) < chan_cap c then Some (c\<lparr>chan_buf := chan_buf c @ [x]\<rparr>) else None)"

definition chan_recv :: "'a chan \<Rightarrow> ('a \<times> 'a chan) option" where
  "chan_recv c = (case chan_buf c of [] \<Rightarrow> None | x # xs \<Rightarrow> Some (x, c\<lparr>chan_buf := xs\<rparr>))"

interpretation go_chan: bounded_channel chan_buf chan_cap chan_try_send chan_send chan_recv
  by unfold_locales
    (auto simp: chan_try_send_def chan_send_def chan_recv_def split: list.splits)

end
