(* ===== verification/Cluster.thy ===== *)
theory Cluster
  imports Channel Config
begin

text \<open>
  The package \<open>cluster\<close>: the membership view that the gossip library drives through its event
  callbacks, the channel of join and leave events the election engine reads, and the node metadata.
  The gossip library \<open>memberlist\<close>, the JSON codec of the metadata and the name resolver are
  parameters.
\<close>

section \<open>Members and events\<close>

record member =
  member_ID :: uint64
  member_GRPCAddr :: string

datatype event_type = EventJoin | EventLeave

record cluster_event =
  ev_Type :: event_type
  ev_MemberID :: uint64

record event_handler =
  members :: "(uint64, member) gomap"
  eventC :: "cluster_event chan"

definition NewEventHandler :: event_handler where
  "NewEventHandler = \<lparr>members = [], eventC = make_chan 16\<rparr>"

text \<open>The fields of a \<open>memberlist.Node\<close> the callbacks read.\<close>

record ml_node =
  Name :: string
  Meta :: string

section \<open>Node metadata\<close>

record node_meta =
  meta_GRPCAddr :: string

text \<open>\<open>json.Marshal\<close> and \<open>json.Unmarshal\<close> at type \<open>NodeMeta\<close>.\<close>

record json_codec =
  Marshal :: "node_meta \<Rightarrow> error + string"
  Unmarshal :: "string \<Rightarrow> error + node_meta"

definition encodeNodeMeta :: "json_codec \<Rightarrow> node_meta \<Rightarrow> error + string" where
  "encodeNodeMeta js m =
     (case Marshal js m of Inl e \<Rightarrow> Inl (Wrap ''encode node meta'' e) | Inr b \<Rightarrow> Inr b)"

definition decodeNodeMeta :: "json_codec \<Rightarrow> string \<Rightarrow> error + node_meta" where
  "decodeNodeMeta js b =
     (case Unmarshal js b of Inl e \<Rightarrow> Inl (Wrap ''decode node meta'' e) | Inr m \<Rightarrow> Inr m)"

text \<open>\<open>metaDelegate.NodeMeta\<close>: metadata longer than the library's limit is not sent at all.\<close>

definition NodeMeta_delegate :: "string \<Rightarrow> int \<Rightarrow> string" where
  "NodeMeta_delegate meta limit = (if int (length meta) > limit then '''' else meta)"

section \<open>The callbacks\<close>

definition NotifyJoin :: "json_codec \<Rightarrow> ml_node \<Rightarrow> event_handler \<Rightarrow> event_handler" where
  "NotifyJoin js node h =
     (case ParseUint (Name node) of
        Inl _ \<Rightarrow> h
      | Inr i \<Rightarrow>
          (case decodeNodeMeta js (Meta node) of
             Inl _ \<Rightarrow> h
           | Inr meta \<Rightarrow>
               h\<lparr>members := gomap_insert i \<lparr>member_ID = i, member_GRPCAddr = meta_GRPCAddr meta\<rparr> (members h),
                 eventC := chan_try_send \<lparr>ev_Type = EventJoin, ev_MemberID = i\<rparr> (eventC h)\<rparr>))"

definition NotifyLeave :: "ml_node \<Rightarrow> event_handler \<Rightarrow> event_handler" where
  "NotifyLeave node h =
     (case ParseUint (Name node) of
        Inl _ \<Rightarrow> h
      | Inr i \<Rightarrow>
          h\<lparr>members := gomap_delete i (members h),
            eventC := chan_try_send \<lparr>ev_Type = EventLeave, ev_MemberID = i\<rparr> (eventC h)\<rparr>)"

definition NotifyUpdate :: "json_codec \<Rightarrow> ml_node \<Rightarrow> event_handler \<Rightarrow> event_handler" where
  "NotifyUpdate js node h =
     (case ParseUint (Name node) of
        Inl _ \<Rightarrow> h
      | Inr i \<Rightarrow>
          (case decodeNodeMeta js (Meta node) of
             Inl _ \<Rightarrow> h
           | Inr meta \<Rightarrow>
               h\<lparr>members := gomap_insert i \<lparr>member_ID = i, member_GRPCAddr = meta_GRPCAddr meta\<rparr> (members h)\<rparr>))"

text \<open>\<open>EventHandler.Members\<close> returns a clone; \<open>cluster.MemberAddr\<close> looks one member up.\<close>

definition Members :: "event_handler \<Rightarrow> (uint64, member) gomap" where
  "Members h = members h"

definition MemberAddr :: "event_handler \<Rightarrow> uint64 \<Rightarrow> string option" where
  "MemberAddr h i = map_option member_GRPCAddr (map_of (Members h) i)"

section \<open>Creation\<close>

text \<open>The settings \<open>New\<close> writes into the library's configuration.\<close>

record ml_settings =
  set_Name :: string
  set_BindAddr :: string
  set_BindPort :: int
  set_AdvertiseAddr :: string
  set_ProbeInterval :: duration
  set_ProbeTimeout :: duration
  set_GossipInterval :: duration
  set_PushPullInterval :: duration
  set_SuspicionMult :: int
  set_Meta :: string

text \<open>\<open>net.ParseIP(s) != nil\<close>, \<open>net.LookupHost\<close> and \<open>memberlist.Create\<close>.\<close>

record 'ml net_lib =
  is_ip :: "string \<Rightarrow> bool"
  LookupHost :: "string \<Rightarrow> error + string list"
  Create :: "ml_settings \<Rightarrow> error + 'ml"

definition resolveAdvertise :: "'ml net_lib \<Rightarrow> string \<Rightarrow> error + string" where
  "resolveAdvertise net addr =
     (if is_ip net addr then Inr addr
      else case LookupHost net addr of
        Inl e \<Rightarrow> Inl (Wrap ''cluster: resolve advertise addr'' e)
      | Inr [] \<Rightarrow> Inl (Invalid ''cluster: no addresses found'')
      | Inr (a # _) \<Rightarrow> Inr a)"

definition NewCluster ::
  "json_codec \<Rightarrow> 'ml net_lib \<Rightarrow> memberlist_config \<Rightarrow> node_config \<Rightarrow> error + ('ml \<times> event_handler)" where
  "NewCluster js net cfg nodeCfg =
     (case encodeNodeMeta js \<lparr>meta_GRPCAddr = node_Address nodeCfg\<rparr> of
        Inl e \<Rightarrow> Inl (Wrap ''cluster: encode node meta'' e)
      | Inr meta \<Rightarrow>
          (case resolveAdvertise net (ml_AdvertiseAddr cfg) of
             Inl e \<Rightarrow> Inl e
           | Inr advertiseAddr \<Rightarrow>
               (case Create net \<lparr>set_Name = FormatUint (node_ID nodeCfg), set_BindAddr = ml_BindAddr cfg,
                   set_BindPort = ml_BindPort cfg, set_AdvertiseAddr = advertiseAddr,
                   set_ProbeInterval = ml_ProbeInterval cfg, set_ProbeTimeout = ml_ProbeTimeout cfg,
                   set_GossipInterval = ml_GossipInterval cfg,
                   set_PushPullInterval = ml_PushPullInterval cfg,
                   set_SuspicionMult = ml_SuspicionMult cfg, set_Meta = meta\<rparr> of
                  Inl e \<Rightarrow> Inl (Wrap ''cluster: create memberlist'' e)
                | Inr ml \<Rightarrow> Inr (ml, NewEventHandler))))"

section \<open>The view\<close>

text \<open>
  The invariant the scheduler and the worker rely on: keys are unique and every entry is stored
  under its own id. The event buffer is never over its capacity.
\<close>

definition handler_ok :: "event_handler \<Rightarrow> bool" where
  "handler_ok h \<longleftrightarrow> gomap_ok (members h) \<and>
     (\<forall>i m. map_of (members h) i = Some m \<longrightarrow> member_ID m = i) \<and>
     length (chan_buf (eventC h)) \<le> chan_cap (eventC h) \<and> chan_cap (eventC h) = 16"

lemma handler_ok_new: "handler_ok NewEventHandler"
  by (simp add: handler_ok_def NewEventHandler_def make_chan_def)

lemma handler_ok_try_send:
  "handler_ok h \<Longrightarrow> handler_ok (h\<lparr>eventC := chan_try_send e (eventC h)\<rparr>)"
  using go_chan.bounded_trysend [of "eventC h" e]
  by (simp add: handler_ok_def go_chan.trysend_capacity)

lemma handler_ok_insert:
  "handler_ok h \<Longrightarrow> handler_ok (h\<lparr>members := gomap_insert i \<lparr>member_ID = i, member_GRPCAddr = a\<rparr> (members h)\<rparr>)"
  by (auto simp: handler_ok_def)

lemma handler_ok_delete: "handler_ok h \<Longrightarrow> handler_ok (h\<lparr>members := gomap_delete i (members h)\<rparr>)"
  by (auto simp: handler_ok_def split: if_splits)

lemma NotifyUpdate_ok: "handler_ok h \<Longrightarrow> handler_ok (NotifyUpdate js node h)"
  by (auto simp: NotifyUpdate_def handler_ok_insert split: sum.splits)

lemma NotifyJoin_ok: "handler_ok h \<Longrightarrow> handler_ok (NotifyJoin js node h)"
  using handler_ok_try_send [OF handler_ok_insert, of h]
  by (auto simp: NotifyJoin_def split: sum.splits)

lemma NotifyLeave_ok: "handler_ok h \<Longrightarrow> handler_ok (NotifyLeave node h)"
  using handler_ok_try_send [OF handler_ok_delete, of h]
  by (auto simp: NotifyLeave_def split: sum.splits)

datatype notification = Joined ml_node | Left ml_node | Updated ml_node

fun notify :: "json_codec \<Rightarrow> notification \<Rightarrow> event_handler \<Rightarrow> event_handler" where
  "notify js (Joined n) h = NotifyJoin js n h"
| "notify js (Left n) h = NotifyLeave n h"
| "notify js (Updated n) h = NotifyUpdate js n h"

lemma notify_ok: "handler_ok h \<Longrightarrow> handler_ok (notify js e h)"
  by (cases e) (simp_all add: NotifyJoin_ok NotifyLeave_ok NotifyUpdate_ok)

lemma fold_notify_ok: "handler_ok h \<Longrightarrow> handler_ok (fold (notify js) es h)"
  by (induction es arbitrary: h) (simp_all add: notify_ok)

text \<open>
  The abstract view: a member is known with the address its last join or update carried, as long
  as it did not leave since; callbacks with an unreadable name or metadata are ignored.
\<close>

fun notified :: "json_codec \<Rightarrow> notification \<Rightarrow> (uint64 \<rightharpoonup> string) \<Rightarrow> (uint64 \<rightharpoonup> string)" where
  "notified js (Left n) v = (case ParseUint (Name n) of Inl _ \<Rightarrow> v | Inr i \<Rightarrow> v(i := None))"
| "notified js (Joined n) v =
     (case (ParseUint (Name n), Unmarshal js (Meta n)) of
        (Inr i, Inr m) \<Rightarrow> v(i \<mapsto> meta_GRPCAddr m) | _ \<Rightarrow> v)"
| "notified js (Updated n) v =
     (case (ParseUint (Name n), Unmarshal js (Meta n)) of
        (Inr i, Inr m) \<Rightarrow> v(i \<mapsto> meta_GRPCAddr m) | _ \<Rightarrow> v)"

lemma notify_view: "MemberAddr (notify js e h) = notified js e (MemberAddr h)"
  by (cases e)
    (auto simp: MemberAddr_def Members_def NotifyJoin_def NotifyLeave_def NotifyUpdate_def
      decodeNodeMeta_def fun_eq_iff split: sum.splits)

lemma fold_notify_view: "MemberAddr (fold (notify js) es h) = fold (notified js) es (MemberAddr h)"
  by (induction es arbitrary: h) (simp_all add: notify_view)

section \<open>Joining and leaving\<close>

text \<open>The methods \<open>Join\<close>, \<open>Leave\<close> and \<open>Shutdown\<close> of \<open>memberlist.Memberlist\<close>.\<close>

record 'ml ml_lib =
  ml_Join :: "'ml \<Rightarrow> string list \<Rightarrow> (error + nat) \<times> 'ml"
  ml_Leave :: "'ml \<Rightarrow> duration \<Rightarrow> (error + unit) \<times> 'ml"
  ml_Shutdown :: "'ml \<Rightarrow> (error + unit) \<times> 'ml"

definition cluster_Join :: "'ml ml_lib \<Rightarrow> string list \<Rightarrow> ('ml, unit) res" where
  "cluster_Join lib seeds ml =
     (case ml_Join lib ml seeds of
        (Inl e, ml1) \<Rightarrow> (Inl (Wrap ''cluster: join'' e), ml1)
      | (Inr _, ml1) \<Rightarrow> (Inr (), ml1))"

definition cluster_Leave :: "'ml ml_lib \<Rightarrow> ('ml, unit) res" where
  "cluster_Leave lib =
     bindE (wrapE ''cluster: leave'' (\<lambda>ml. ml_Leave lib ml 0))
     (\<lambda>_. wrapE ''cluster: shutdown'' (ml_Shutdown lib))"

section \<open>Properties\<close>

text \<open>
  C27: What \<open>MemberAddr\<close> answers after any sequence of callbacks is what the last readable one for that
  id said: the address of a join or update, nothing after a leave; and the map stays well formed,
  with every member under its own id and the event buffer within its capacity.
\<close>

theorem cluster_view_follows_callbacks:
  "MemberAddr (fold (notify js) es NewEventHandler) = fold (notified js) es Map.empty \<and>
   handler_ok (fold (notify js) es NewEventHandler)"
proof -
  have "MemberAddr NewEventHandler = Map.empty"
    by (simp add: MemberAddr_def Members_def NewEventHandler_def fun_eq_iff)
  then show ?thesis by (simp add: fold_notify_view fold_notify_ok handler_ok_new)
qed

lemma notify_full:
  assumes "chan_cap (eventC h) \<le> length (chan_buf (eventC h))"
  shows "eventC (notify js e h) = eventC h"
  using assms
  by (cases e) (auto simp: NotifyJoin_def NotifyLeave_def NotifyUpdate_def chan_try_send_def split: sum.splits)

text \<open>
  Once sixteen events wait to be read, a further join or leave changes the map of members but is
  not announced: the election engine is never told that the node it takes for the leader has left.
\<close>

theorem full_buffer_loses_leave:
  assumes "length (chan_buf (eventC h)) = 16" and "handler_ok h"
    and "ParseUint (Name n) = Inr i"
  shows "MemberAddr (NotifyLeave n h) i = None \<and> eventC (NotifyLeave n h) = eventC h"
  using notify_full [of h undefined "Left n"] notify_view [of undefined "Left n" h] assms
  by (simp add: handler_ok_def)

theorem full_buffer_witness:
  "eventC (NotifyLeave \<lparr>Name = ''5'', Meta = ''''\<rparr>
     (NewEventHandler\<lparr>eventC := \<lparr>chan_cap = 16, chan_buf = replicate 16 \<lparr>ev_Type = EventJoin, ev_MemberID = 1\<rparr>\<rparr>\<rparr>))
   = \<lparr>chan_cap = 16, chan_buf = replicate 16 \<lparr>ev_Type = EventJoin, ev_MemberID = 1\<rparr>\<rparr>"
proof -
  let ?h = "NewEventHandler\<lparr>eventC := \<lparr>chan_cap = 16, chan_buf = replicate 16 \<lparr>ev_Type = EventJoin, ev_MemberID = 1\<rparr>\<rparr>\<rparr>"
  have "ParseUint (Name \<lparr>Name = ''5'', Meta = ''''\<rparr>) = Inr 5" by code_simp
  moreover have "handler_ok ?h" by (simp add: handler_ok_def NewEventHandler_def)
  ultimately show ?thesis using full_buffer_loses_leave [of ?h "\<lparr>Name = ''5'', Meta = ''''\<rparr>" 5] by simp
qed


definition plain_json :: json_codec where
  "plain_json = \<lparr>Marshal = (\<lambda>m. Inr (meta_GRPCAddr m)), Unmarshal = (\<lambda>b. Inr \<lparr>meta_GRPCAddr = b\<rparr>)\<rparr>"

definition any_net :: "ml_settings net_lib" where
  "any_net = \<lparr>is_ip = (\<lambda>_. True), LookupHost = (\<lambda>_. Inr []), Create = Inr\<rparr>"

definition demo_ml :: memberlist_config where
  "demo_ml = \<lparr>ml_BindAddr = ''0.0.0.0'', ml_BindPort = 7946, ml_AdvertiseAddr = ''10.0.0.1'', ml_Seeds = [], ml_ProbeInterval = 1,
     ml_ProbeTimeout = 1, ml_GossipInterval = 1, ml_PushPullInterval = 1, ml_SuspicionMult = 4\<rparr>"


end
