(* ===== verification/Strategy.thy ===== *)
theory Strategy
  imports Cluster
begin

text \<open>
  The package \<open>scheduler/strategy\<close>: the interface \<open>Strategy\<close> as a locale, and \<open>RoundRobin\<close>, its one
  implementation, with its 64 bit counter.
\<close>

section \<open>The interface\<close>

text \<open>
  \<open>pick ms s\<close> returns a member, whether there is one, and the new state of the strategy. A strategy
  picks from the map it is given. \<open>steady s k\<close> says that the next \<open>k\<close> picks rotate: from one map
  with at least \<open>k\<close> members they are pairwise different.
\<close>

fun picks :: "('m \<Rightarrow> 's \<Rightarrow> (member \<times> bool) \<times> 's) \<Rightarrow> nat \<Rightarrow> 'm \<Rightarrow> 's \<Rightarrow> member list" where
  "picks pick 0 ms s = []"
| "picks pick (Suc k) ms s = fst (fst (pick ms s)) # picks pick k ms (snd (pick ms s))"

locale strategy =
  fixes pick :: "(uint64, member) gomap \<Rightarrow> 's \<Rightarrow> (member \<times> bool) \<times> 's"
    and steady :: "'s \<Rightarrow> nat \<Rightarrow> bool"
  assumes pick_none: "ms = [] \<Longrightarrow> \<not> snd (fst (pick ms s))"
    and pick_some: "gomap_ok ms \<Longrightarrow> ms \<noteq> [] \<Longrightarrow> length ms < 2 ^ 64 \<Longrightarrow>
      snd (fst (pick ms s)) \<and> (\<exists>i. map_of ms i = Some (fst (fst (pick ms s))))"
    and steady_mono: "steady s j \<Longrightarrow> k \<le> j \<Longrightarrow> steady s k"
    and steady_Suc: "steady s (Suc k) \<Longrightarrow> steady (snd (pick ms s)) k"
    and steady_distinct: "gomap_ok ms \<Longrightarrow> length ms < 2 ^ 64 \<Longrightarrow> k \<le> length ms \<Longrightarrow> steady s k \<Longrightarrow>
      \<forall>i m. map_of ms i = Some m \<longrightarrow> member_ID m = i \<Longrightarrow> distinct (map member_ID (picks pick k ms s))"
begin

lemma picks_members:
  assumes "gomap_ok ms" and "ms \<noteq> []" and "length ms < 2 ^ 64"
  shows "set (picks pick k ms s) \<subseteq> ran (map_of ms)"
proof (induction k arbitrary: s)
  case 0
  then show ?case by simp
next
  case (Suc k)
  then show ?case using pick_some [OF assms, of s] by (auto simp: ran_def)
qed

end

section \<open>RoundRobin\<close>

record round_robin =
  counter :: uint64

definition NewRoundRobin :: round_robin where
  "NewRoundRobin = \<lparr>counter = 0\<rparr>"

definition zero_member :: member where
  "zero_member = \<lparr>member_ID = 0, member_GRPCAddr = ''''\<rparr>"

definition Pick :: "(uint64, member) gomap \<Rightarrow> round_robin \<Rightarrow> (member \<times> bool) \<times> round_robin" where
  "Pick ms r =
     (if ms = [] then ((zero_member, False), r)
      else
        let ids = sort (map fst ms);
            idx = counter r mod of_nat (length ids)
        in ((case map_of ms (ids ! unat idx) of None \<Rightarrow> zero_member | Some m \<Rightarrow> m, True),
            r\<lparr>counter := counter r + 1\<rparr>))"

section \<open>Correctness\<close>

lemma unat_of_nat_length: "length xs < 2 ^ 64 \<Longrightarrow> unat (of_nat (length xs) :: uint64) = length xs"
  by (simp add: unat_of_nat)

definition nth_member :: "(uint64, member) gomap \<Rightarrow> nat \<Rightarrow> member option" where
  "nth_member ms j = map_of ms (sort (map fst ms) ! (j mod length ms))"

lemma Pick_nonempty:
  assumes "ms \<noteq> []" and "length ms < 2 ^ 64"
  shows "Pick ms r = ((case nth_member ms (unat (counter r)) of None \<Rightarrow> zero_member | Some m \<Rightarrow> m, True),
      r\<lparr>counter := counter r + 1\<rparr>)"
  using assms by (simp add: Pick_def nth_member_def Let_def unat_mod unat_of_nat_length)

lemma nth_member_Some:
  assumes "gomap_ok ms" and "ms \<noteq> []"
  shows "\<exists>m. nth_member ms j = Some m \<and> map_of ms (sort (map fst ms) ! (j mod length ms)) = Some m"
proof -
  have "j mod length ms < length (sort (map fst ms))" using assms(2) by simp
  then have "sort (map fst ms) ! (j mod length ms) \<in> set (map fst ms)"
    by (metis nth_mem set_sort)
  then have "map_of ms (sort (map fst ms) ! (j mod length ms)) \<noteq> None"
    by (simp add: map_of_eq_None_iff)
  then show ?thesis by (simp add: nth_member_def)
qed

lemma nth_member_inj:
  assumes ok: "gomap_ok ms" and ids: "\<forall>i m. map_of ms i = Some m \<longrightarrow> member_ID m = i"
    and "ms \<noteq> []" and "nth_member ms j = Some m" and "nth_member ms k = Some m'" and "member_ID m = member_ID m'"
  shows "j mod length ms = k mod length ms"
proof -
  let ?ids = "sort (map fst ms)"
  have "member_ID m = ?ids ! (j mod length ms)" and "member_ID m' = ?ids ! (k mod length ms)"
    using ids assms(4,5) unfolding nth_member_def by blast+
  then have "?ids ! (j mod length ms) = ?ids ! (k mod length ms)" using assms(6) by simp
  moreover have "distinct ?ids" using ok by (simp add: gomap_ok_def)
  moreover have "j mod length ms < length ?ids" and "k mod length ms < length ?ids"
    using assms(3) by simp_all
  ultimately show ?thesis by (simp add: nth_eq_iff_index_eq)
qed

text \<open>\<open>k\<close> picks in a row walk through the sorted members from the counter on, as long as it does not wrap.\<close>

definition rr_steady :: "round_robin \<Rightarrow> nat \<Rightarrow> bool" where
  "rr_steady r k \<longleftrightarrow> unat (counter r) + k \<le> 2 ^ 64"

lemma unat_Suc_word: "unat (c :: uint64) + Suc k \<le> 2 ^ 64 \<Longrightarrow> k \<noteq> 0 \<Longrightarrow> unat (c + 1) = Suc (unat c)"
  by (simp add: unat_word_ariths)

lemma picks_Pick:
  assumes "gomap_ok ms" and "ms \<noteq> []" and "length ms < 2 ^ 64" and "rr_steady r k"
  shows "map Some (picks Pick k ms r) = map (nth_member ms) [unat (counter r) ..< unat (counter r) + k]"
  using assms(4)
proof (induction k arbitrary: r)
  case 0
  then show ?case by simp
next
  case (Suc k)
  obtain m where m: "nth_member ms (unat (counter r)) = Some m"
    using nth_member_Some [OF assms(1,2)] by blast
  show ?case
  proof (cases "k = 0")
    case True
    then show ?thesis using m by (simp add: Pick_nonempty [OF assms(2,3)])
  next
    case False
    then have c: "unat (counter r + 1) = Suc (unat (counter r))"
      using Suc.prems unat_Suc_word [of "counter r" k] by (simp add: rr_steady_def)
    then have "rr_steady (r\<lparr>counter := counter r + 1\<rparr>) k"
      using Suc.prems by (simp add: rr_steady_def)
    note IH = Suc.IH [OF this]
    have "[unat (counter r)..<unat (counter r) + Suc k] =
        unat (counter r) # [Suc (unat (counter r))..<Suc (unat (counter r)) + k]"
      by (subst upt_conv_Cons) simp_all
    with IH c m show ?thesis
      by (simp add: Pick_nonempty [OF assms(2,3)] del: upt_Suc)
  qed
qed

lemma add_mod_inj:
  fixes c i j n :: nat
  assumes "(c + i) mod n = (c + j) mod n" and "i < n" and "j < n"
  shows "i = j"
proof -
  have "int (c + i) mod int n = int (c + j) mod int n" using assms(1) by (metis zmod_int)
  then have "int n dvd int i - int j" by (simp add: mod_eq_dvd_iff)
  moreover have "\<bar>int i - int j\<bar> < int n" using assms(2,3) by simp
  ultimately show ?thesis using dvd_imp_le_int [of "int i - int j" "int n"] by (cases "i = j") auto
qed

lemma picks_Pick_distinct:
  assumes ok: "gomap_ok ms" and len: "length ms < 2 ^ 64" and k: "k \<le> length ms" and st: "rr_steady r k"
    and ids: "\<forall>i m. map_of ms i = Some m \<longrightarrow> member_ID m = i"
  shows "distinct (map member_ID (picks Pick k ms r))"
proof (cases "ms = []")
  case True
  then show ?thesis using k by simp
next
  case False
  let ?c = "unat (counter r)" and ?xs = "picks Pick k ms r"
  note p = picks_Pick [OF ok False len st]
  have n: "length ?xs = k" using arg_cong [OF p, of length] by simp
  have nth: "nth_member ms (?c + i) = Some (?xs ! i)" if "i < k" for i
    using arg_cong [OF p, of "\<lambda>l. l ! i"] that n by simp
  have "i = j" if "i < k" "j < k" "member_ID (?xs ! i) = member_ID (?xs ! j)" for i j
  proof -
    have "(?c + i) mod length ms = (?c + j) mod length ms"
      using nth_member_inj [OF ok ids False nth [OF that(1)] nth [OF that(2)] that(3)] .
    moreover have "i < length ms" and "j < length ms" using that k by simp_all
    ultimately show ?thesis by (rule add_mod_inj)
  qed
  then show ?thesis by (auto simp: distinct_conv_nth n)
qed

interpretation rr: strategy Pick rr_steady
proof unfold_locales
  fix ms :: "(uint64, member) gomap" and s j k
  show "ms = [] \<Longrightarrow> \<not> snd (fst (Pick ms s))" by (simp add: Pick_def)
  show "snd (fst (Pick ms s)) \<and> (\<exists>i. map_of ms i = Some (fst (fst (Pick ms s))))"
    if "gomap_ok ms" "ms \<noteq> []" "length ms < 2 ^ 64"
    using nth_member_Some [OF that(1,2), of "unat (counter s)"] by (auto simp: Pick_nonempty [OF that(2,3)])
  show "rr_steady s j \<Longrightarrow> k \<le> j \<Longrightarrow> rr_steady s k" by (simp add: rr_steady_def)
  show "rr_steady (snd (Pick ms s)) k" if "rr_steady s (Suc k)"
  proof (cases "k = 0")
    case True
    have "unat (counter (snd (Pick ms s))) < 2 ^ 64"
      using unsigned_less [of "counter (snd (Pick ms s))", where ?'a = nat] by simp
    with True show ?thesis by (simp add: rr_steady_def)
  next
    case False
    with that show ?thesis
      using unat_Suc_word [of "counter s" k] by (auto simp: rr_steady_def Pick_def Let_def)
  qed
qed (rule picks_Pick_distinct)

section \<open>Properties\<close>

lemma Pick_order:
  assumes "mset ms = mset ms'" and "gomap_ok ms"
  shows "Pick ms r = Pick ms' r"
proof -
  have "map_of ms = map_of ms'" "sort (map fst ms) = sort (map fst ms')" "length ms = length ms'" "ms = [] \<longleftrightarrow> ms' = []"
  proof -
    have d: "distinct (map fst ms)" using assms(2) by (simp add: gomap_ok_def)
    moreover have d': "distinct (map fst ms')"
      using d mset_eq_imp_distinct_iff [of "map fst ms" "map fst ms'"] assms(1) by simp
    ultimately show "map_of ms = map_of ms'" using mset_eq_setD [OF assms(1)] by (intro map_of_inject_set [THEN iffD2])
    show "sort (map fst ms) = sort (map fst ms')" by (rule sort_eq_of_mset) (simp add: assms(1))
    show "length ms = length ms'" "ms = [] \<longleftrightarrow> ms' = []" using assms(1) mset_eq_length by force+
  qed
  then show ?thesis by (simp add: Pick_def Let_def)
qed

text \<open>
  C26: As long as the counter does not wrap, as many picks in a row as there are members pick every
  member exactly once, and no pick depends on the order in which Go iterates over the map.
\<close>

theorem round_robin_fair:
  assumes "gomap_ok ms" and "length ms < 2 ^ 64" and "\<forall>i m. map_of ms i = Some m \<longrightarrow> member_ID m = i"
    and "rr_steady r (length ms)" and "mset ms = mset ms'"
  shows "distinct (map member_ID (picks Pick (length ms) ms r)) \<and>
    member_ID ` set (picks Pick (length ms) ms r) = fst ` set ms \<and> Pick ms r = Pick ms' r"
proof -
  let ?ps = "picks Pick (length ms) ms r"
  have d: "distinct (map member_ID ?ps)" by (rule picks_Pick_distinct [OF assms(1,2) order_refl assms(4,3)])
  have "member_ID ` set ?ps = fst ` set ms"
  proof (cases "ms = []")
    case True
    then show ?thesis by simp
  next
    case False
    have "length ?ps = length ms" using arg_cong [OF picks_Pick [OF assms(1) False assms(2,4)], of length] by simp
    with d have "card (member_ID ` set ?ps) = card (fst ` set ms)"
      using gomap_length_card [OF assms(1)] distinct_card [OF d] by simp
    moreover have "member_ID ` set ?ps \<subseteq> fst ` set ms"
    proof
      fix k assume "k \<in> member_ID ` set ?ps"
      then obtain m i where "k = member_ID m" "map_of ms i = Some m"
        using rr.picks_members [OF assms(1) False assms(2), of "length ms" r] by (auto simp: ran_def)
      then show "k \<in> fst ` set ms" using assms(3) by (auto simp: image_iff dest: map_of_SomeD intro!: bexI)
    qed
    ultimately show ?thesis by (intro card_subset_eq) simp_all
  qed
  with d Pick_order [OF assms(5,1)] show ?thesis by simp
qed

theorem round_robin_witness:
  "let m4 = \<lparr>member_ID = 4, member_GRPCAddr = ''a''\<rparr>; m9 = \<lparr>member_ID = 9, member_GRPCAddr = ''b''\<rparr> in
   member_ID ` set (picks Pick 2 [(4, m4), (9, m9)] NewRoundRobin) = {4, 9} \<and>
   Pick [(4, m4), (9, m9)] NewRoundRobin = Pick [(9, m9), (4, m4)] NewRoundRobin"
proof -
  let ?m4 = "\<lparr>member_ID = 4, member_GRPCAddr = ''a''\<rparr>" and ?m9 = "\<lparr>member_ID = 9, member_GRPCAddr = ''b''\<rparr>"
  have ok: "gomap_ok [(4 :: uint64, ?m4), (9, ?m9)]" "length [(4 :: uint64, ?m4), (9, ?m9)] < 2 ^ 64"
      "\<forall>i m. map_of [(4 :: uint64, ?m4), (9, ?m9)] i = Some m \<longrightarrow> member_ID m = i"
      "rr_steady NewRoundRobin (length [(4 :: uint64, ?m4), (9, ?m9)])"
      "mset [(4 :: uint64, ?m4), (9, ?m9)] = mset [(9, ?m9), (4, ?m4)]"
    by (simp_all add: gomap_ok_def rr_steady_def NewRoundRobin_def add_mset_commute)
  have two: "length [(4 :: uint64, ?m4), (9, ?m9)] = 2" "fst ` set [(4 :: uint64, ?m4), (9, ?m9)] = {4, 9}" by auto
  from round_robin_fair [OF ok, unfolded two] show ?thesis unfolding Let_def by blast
qed

end
