(* ===== verification/Tables.thy ===== *)
theory Tables
  imports Prelude
begin

text \<open>
  The PostgreSQL schema of \<open>migrations/000001_init.up.sql\<close> as records of rows, and one function for
  each statement of \<open>task/sql\<close>. A table is the list of its rows; a column that may be \<open>NULL\<close> is an
  \<open>option\<close>. The constraints of the schema that a statement can violate (the foreign keys to
  \<open>task\<close>, the primary keys) are errors of the function that models it.

  The main notion is the \<^emph>\<open>history\<close> of a task: its rows of \<open>task_status\<close> in the order
  \<open>created_at, id\<close>, which is what \<open>ORDER BY created_at DESC, id DESC LIMIT 1\<close> reads from the end.
\<close>

section \<open>Rows\<close>

datatype task_state =
    StateQueued
  | StateScheduling
  | StateAssigned
  | StateRunning
  | StateFailed
  | StateWorkerLost
  | StateCompleted

fun state_string :: "task_state \<Rightarrow> string" where
  "state_string StateQueued = ''QUEUED''"
| "state_string StateScheduling = ''SCHEDULING''"
| "state_string StateAssigned = ''ASSIGNED''"
| "state_string StateRunning = ''RUNNING''"
| "state_string StateFailed = ''FAILED''"
| "state_string StateWorkerLost = ''WORKER_LOST''"
| "state_string StateCompleted = ''COMPLETED''"

record task_row =
  t_id :: uuid
  t_executable :: string
  t_input_uri :: "string option"
  t_output_uri :: "string option"
  t_args :: "string list"
  t_max_retries :: int
  t_created_at :: timestamp

record status_row =
  s_id :: uuid
  s_task_id :: uuid
  s_status :: task_state
  s_assigned_to :: "int option"
  s_error :: "string option"
  s_created_at :: timestamp

record lease_row =
  l_task_id :: uuid
  l_worker_id :: int
  l_expires_at :: timestamp
  l_created_at :: timestamp
  l_updated_at :: timestamp

record db =
  task_table :: "task_row list"
  status_table :: "status_row list"
  lease_table :: "lease_row list"

definition has_task :: "db \<Rightarrow> uuid \<Rightarrow> bool" where
  "has_task d t \<longleftrightarrow> (\<exists>r \<in> set (task_table d). t_id r = t)"

definition has_lease :: "db \<Rightarrow> uuid \<Rightarrow> bool" where
  "has_lease d t \<longleftrightarrow> (\<exists>l \<in> set (lease_table d). l_task_id l = t)"

lemma has_task_update [simp]:
  "has_task (d\<lparr>lease_table := ls\<rparr>) t = has_task d t" "has_task (d\<lparr>status_table := ss\<rparr>) t = has_task d t"
  by (simp_all add: has_task_def)

section \<open>Histories\<close>

definition status_key :: "status_row \<Rightarrow> timestamp \<times> uuid" where
  "status_key r = (s_created_at r, s_id r)"

definition history_rows :: "db \<Rightarrow> uuid \<Rightarrow> status_row list" where
  "history_rows d t = sort_key status_key (filter (\<lambda>r. s_task_id r = t) (status_table d))"

definition history :: "db \<Rightarrow> uuid \<Rightarrow> task_state list" where
  "history d t = map s_status (history_rows d t)"

text \<open>The number of rows a task has with status \<open>FAILED\<close>.\<close>

definition failed_count :: "db \<Rightarrow> uuid \<Rightarrow> int" where
  "failed_count d t =
     int (length (filter (\<lambda>r. s_task_id r = t \<and> s_status r = StateFailed) (status_table d)))"

section \<open>The statements\<close>

text \<open>
  \<open>insert_status.sql\<close>: the id and the creation time are the column defaults, \<open>uuidv7()\<close> and
  \<open>NOW()\<close>, given here as the first two arguments.
\<close>

definition sql_insert_status ::
  "uuid \<Rightarrow> timestamp \<Rightarrow> uuid \<Rightarrow> task_state \<Rightarrow> int option \<Rightarrow> string option \<Rightarrow> db \<Rightarrow> error + db" where
  "sql_insert_status new now t st who err d =
     (if \<not> has_task d t then Inl (Failure ''violates foreign key constraint'')
      else if new \<in> s_id ` set (status_table d) then Inl (Failure ''violates primary key'')
      else Inr (d\<lparr>status_table := status_table d @
             [\<lparr>s_id = new, s_task_id = t, s_status = st, s_assigned_to = who, s_error = err,
               s_created_at = now\<rparr>]\<rparr>))"

text \<open>\<open>latest_status.sql\<close>; no row is \<open>None\<close>.\<close>

definition sql_latest_status :: "uuid \<Rightarrow> db \<Rightarrow> task_state option" where
  "sql_latest_status t d = (case rev (history_rows d t) of [] \<Rightarrow> None | r # _ \<Rightarrow> Some (s_status r))"

text \<open>\<open>check_lease_owner.sql\<close>\<close>

definition sql_check_lease_owner :: "uuid \<Rightarrow> int \<Rightarrow> db \<Rightarrow> bool" where
  "sql_check_lease_owner t w d \<longleftrightarrow> (\<exists>l \<in> set (lease_table d). l_task_id l = t \<and> l_worker_id l = w)"

text \<open>\<open>delete_lease.sql\<close>\<close>

definition sql_delete_lease :: "uuid \<Rightarrow> int \<Rightarrow> db \<Rightarrow> db" where
  "sql_delete_lease t w d =
     d\<lparr>lease_table := filter (\<lambda>l. \<not> (l_task_id l = t \<and> l_worker_id l = w)) (lease_table d)\<rparr>"

text \<open>\<open>upsert_lease.sql\<close>: the lease lasts \<open>dur\<close> seconds from \<open>NOW()\<close>.\<close>

definition lease_expiry :: "timestamp \<Rightarrow> int \<Rightarrow> timestamp" where
  "lease_expiry now dur = now + dur * 1000000"

definition sql_upsert_lease :: "timestamp \<Rightarrow> uuid \<Rightarrow> int \<Rightarrow> int \<Rightarrow> db \<Rightarrow> error + db" where
  "sql_upsert_lease now t w dur d =
     (if \<not> has_task d t then Inl (Failure ''violates foreign key constraint'')
      else if has_lease d t then
        Inr (d\<lparr>lease_table := map (\<lambda>l. if l_task_id l = t
                 then l\<lparr>l_worker_id := w, l_expires_at := lease_expiry now dur, l_updated_at := now\<rparr>
                 else l) (lease_table d)\<rparr>)
      else
        Inr (d\<lparr>lease_table := lease_table d @
             [\<lparr>l_task_id = t, l_worker_id = w, l_expires_at = lease_expiry now dur,
               l_created_at = now, l_updated_at = now\<rparr>]\<rparr>))"

text \<open>\<open>renew_lease.sql\<close>, with the number of rows it updates.\<close>

definition sql_renew_lease :: "timestamp \<Rightarrow> uuid \<Rightarrow> int \<Rightarrow> int \<Rightarrow> db \<Rightarrow> nat \<times> db" where
  "sql_renew_lease now t w dur d =
     (length (filter (\<lambda>l. l_task_id l = t \<and> l_worker_id l = w) (lease_table d)),
      d\<lparr>lease_table := map (\<lambda>l. if l_task_id l = t \<and> l_worker_id l = w
           then l\<lparr>l_expires_at := lease_expiry now dur, l_updated_at := now\<rparr> else l) (lease_table d)\<rparr>)"

text \<open>\<open>count_failed.sql\<close>: no row when there is no such task.\<close>

definition sql_count_failed :: "uuid \<Rightarrow> db \<Rightarrow> (int \<times> int) option" where
  "sql_count_failed t d =
     (case filter (\<lambda>r. t_id r = t) (task_table d) of
        [] \<Rightarrow> None
      | r # _ \<Rightarrow> Some (failed_count d t, t_max_retries r))"

text \<open>
  \<open>claim_queued.sql\<close>: the claimable tasks, oldest first, \<open>LIMIT n\<close>. The argument \<open>locked\<close> is the
  ids of the task rows another session has locked, which \<open>SKIP LOCKED\<close> leaves out before the limit
  counts. PostgreSQL rejects a negative limit.
\<close>

definition claimable :: "db \<Rightarrow> task_row \<Rightarrow> bool" where
  "claimable d r \<longleftrightarrow>
     (sql_latest_status (t_id r) d = Some StateQueued \<or>
      sql_latest_status (t_id r) d = Some StateWorkerLost) \<and>
     failed_count d (t_id r) < t_max_retries r"

definition sql_claim_queued :: "uuid list \<Rightarrow> int \<Rightarrow> db \<Rightarrow> error + task_row list" where
  "sql_claim_queued locked n d =
     (if n < 0 then Inl (Failure ''LIMIT must not be negative'')
      else Inr (take (nat n)
        (filter (\<lambda>r. t_id r \<notin> set locked)
          (sort_key (\<lambda>r. (t_created_at r, t_id r)) (filter (claimable d) (task_table d))))))"

text \<open>\<open>list_active_leases.sql\<close>, \<open>select_active_leases.sql\<close> and \<open>select_expired_leases.sql\<close>\<close>

definition sql_list_active_leases :: "db \<Rightarrow> (uuid \<times> int \<times> timestamp) list" where
  "sql_list_active_leases d = map (\<lambda>l. (l_task_id l, l_worker_id l, l_expires_at l)) (lease_table d)"

definition sql_select_active_leases :: "uuid list \<Rightarrow> db \<Rightarrow> (uuid \<times> int) list" where
  "sql_select_active_leases locked d =
     map (\<lambda>l. (l_task_id l, l_worker_id l)) (filter (\<lambda>l. l_task_id l \<notin> set locked) (lease_table d))"

definition sql_select_expired_leases :: "uuid list \<Rightarrow> timestamp \<Rightarrow> db \<Rightarrow> (uuid \<times> int) list" where
  "sql_select_expired_leases locked now d =
     map (\<lambda>l. (l_task_id l, l_worker_id l))
       (filter (\<lambda>l. l_task_id l \<notin> set locked)
         (sort_key (\<lambda>l. (l_expires_at l, l_task_id l))
           (filter (\<lambda>l. l_expires_at l < now) (lease_table d))))"

text \<open>\<open>select_stale_scheduling.sql\<close>: tasks whose latest status is \<open>SCHEDULING\<close> and that have no lease.\<close>

definition sql_select_stale_scheduling :: "uuid list \<Rightarrow> db \<Rightarrow> uuid list" where
  "sql_select_stale_scheduling locked d =
     map t_id (filter (\<lambda>r. sql_latest_status (t_id r) d = Some StateScheduling \<and>
                           \<not> has_lease d (t_id r) \<and> t_id r \<notin> set locked) (task_table d))"

section \<open>Facts on histories\<close>

lemma sql_latest_status_history:
  "sql_latest_status t d = (if history d t = [] then None else Some (last (history d t)))"
proof (cases "history_rows d t" rule: rev_exhaust)
  case Nil
  then show ?thesis by (simp add: sql_latest_status_def history_def)
next
  case (snoc ys y)
  then show ?thesis by (simp add: sql_latest_status_def history_def)
qed

lemma history_cong: "status_table d = status_table d' \<Longrightarrow> history d t = history d' t"
  by (simp add: history_def history_rows_def)

lemma failed_count_cong: "status_table d = status_table d' \<Longrightarrow> failed_count d t = failed_count d' t"
  by (simp add: failed_count_def)

lemma failed_count_history: "failed_count d t = int (count_list (history d t) StateFailed)"
proof -
  have count: "count_list (map s_status rs) StateFailed
      = length (filter (\<lambda>r. s_status r = StateFailed) rs)" for rs
    by (induction rs) auto
  have "length (filter P (sort_key status_key xs)) = length (filter P xs)" for P xs
    by (metis mset_filter mset_sort size_mset)
  then show ?thesis
    by (simp add: failed_count_def history_def history_rows_def count conj_commute)
qed

text \<open>
  The rows of the table are older than the next insertion: their creation time is not after
  \<open>now\<close>, and their ids are below the id \<open>new\<close> the next row gets.
\<close>

definition rows_before :: "timestamp \<Rightarrow> uuid \<Rightarrow> db \<Rightarrow> bool" where
  "rows_before now new d \<longleftrightarrow> (\<forall>r \<in> set (status_table d). s_created_at r \<le> now \<and> s_id r < new)"

lemma insert_status_history:
  assumes "sql_insert_status new now t st who err d = Inr d'" and "rows_before now new d"
  shows "history d' u = (if u = t then history d u @ [st] else history d u)"
proof -
  let ?row = "\<lparr>s_id = new, s_task_id = t, s_status = st, s_assigned_to = who, s_error = err,
               s_created_at = now\<rparr>"
  have tab: "status_table d' = status_table d @ [?row]"
    using assms(1) by (auto simp: sql_insert_status_def split: if_splits)
  have "status_key y < status_key ?row" if "y \<in> set (status_table d)" for y
    using that assms(2) by (auto simp: rows_before_def status_key_def)
  then have "sort_key status_key (filter (\<lambda>r. s_task_id r = t) (status_table d) @ [?row])
      = sort_key status_key (filter (\<lambda>r. s_task_id r = t) (status_table d)) @ [?row]"
    by (intro sort_key_snoc_greatest) simp
  then show ?thesis by (simp add: history_def history_rows_def tab)
qed

lemma insert_status_total:
  assumes "has_task d t" and "rows_before now new d"
  shows "\<exists>d'. sql_insert_status new now t st who err d = Inr d'"
  using assms by (auto simp: sql_insert_status_def rows_before_def)

lemma insert_status_frame:
  assumes "sql_insert_status new now t st who err d = Inr d'"
  shows "task_table d' = task_table d" and "lease_table d' = lease_table d"
    and "has_task d' u = has_task d u" and "has_lease d' u = has_lease d u"
  using assms by (auto simp: sql_insert_status_def has_task_def has_lease_def split: if_splits)

lemma insert_status_fk:
  assumes "sql_insert_status new now t st who err d = Inr d'"
    and "\<forall>r \<in> set (status_table d). has_task d (s_task_id r)"
  shows "\<forall>r \<in> set (status_table d'). has_task d' (s_task_id r)"
  using assms by (auto simp: sql_insert_status_def split: if_splits)

lemma insert_status_rows_before:
  assumes "sql_insert_status new now t st who err d = Inr d'"
    and "rows_before now new d" and "new < new'"
  shows "rows_before now new' d'"
  using assms
  by (auto simp: sql_insert_status_def rows_before_def split: if_splits intro: less_trans)

lemma upsert_lease_frame:
  assumes "sql_upsert_lease now t w dur d = Inr d'"
  shows "status_table d' = status_table d" and "task_table d' = task_table d" and "has_task d t"
    and "has_task d' u = has_task d u"
  using assms by (auto simp: sql_upsert_lease_def split: if_splits)

end
