(* ===== verification/Store.thy ===== *)
theory Store
  imports Tables
begin

text \<open>
  \<open>task/store.go\<close>: the operations of \<open>PostgresStore\<close>, each as one function on the state of a
  database session. Every call to the database (begin, query, exec, commit, the final \<open>rows.Err\<close>)
  takes the next element of the session's fault plan, so that an operation may fail at any of its
  calls; a transaction that does not commit leaves the tables as it found them.
\<close>

section \<open>The driver and the session\<close>

text \<open>
  What the code takes from PostgreSQL and from \<open>pgx\<close>: the ids that successive calls of
  \<open>uuidv7()\<close> return, and what \<open>Scan\<close> does with a \<open>BIGINT\<close> read into a \<open>*uint64\<close> and with a nullable
  text read into a \<open>*string\<close>. They are parameters of the model.
\<close>

record pgx =
  uuidv7 :: "nat \<Rightarrow> uuid"
  scan_uint64 :: "int \<Rightarrow> error + uint64"
  scan_text :: "string option \<Rightarrow> error + string"

text \<open>
  A call to the database may be refused, with no effect, or it may take effect while its reply is
  lost; the code sees an error in both cases.
\<close>

datatype fault = NoFault | Refused error | ReplyLost error

text \<open>
  A session: the tables, the time \<open>NOW()\<close> of the current transaction, how many ids \<open>uuidv7()\<close> has
  handed out, the faults to come (none when the plan is empty), and the rows of \<open>task\<close> and of
  \<open>task_lease\<close> that other sessions hold locked.
\<close>

record pg =
  tables :: db
  now :: timestamp
  drawn :: nat
  faults :: "fault list"
  locked_tasks :: "uuid list"
  locked_leases :: "uuid list"

record postgres_store =
  leaseDuration :: duration
  driver :: pgx

definition NewPostgresStore :: "duration \<Rightarrow> pgx \<Rightarrow> postgres_store" where
  "NewPostgresStore d px = \<lparr>leaseDuration = d, driver = px\<rparr>"

definition next_fault :: "pg \<Rightarrow> fault \<times> pg" where
  "next_fault s = (case faults s of [] \<Rightarrow> (NoFault, s) | f # fs \<Rightarrow> (f, s\<lparr>faults := fs\<rparr>))"

definition db_query :: "(pg \<Rightarrow> error + 'a) \<Rightarrow> (pg, 'a) res" where
  "db_query q s =
     (case next_fault s of
        (NoFault, s') \<Rightarrow> (q s', s')
      | (Refused e, s') \<Rightarrow> (Inl e, s')
      | (ReplyLost e, s') \<Rightarrow> (Inl e, s'))"

definition db_exec :: "(pg \<Rightarrow> error + 'a \<times> db) \<Rightarrow> (pg, 'a) res" where
  "db_exec stmt s =
     (case next_fault s of
        (NoFault, s') \<Rightarrow>
          (case stmt s' of Inl e \<Rightarrow> (Inl e, s') | Inr (a, d) \<Rightarrow> (Inr a, s'\<lparr>tables := d\<rparr>))
      | (Refused e, s') \<Rightarrow> (Inl e, s')
      | (ReplyLost e, s') \<Rightarrow>
          (case stmt s' of Inl _ \<Rightarrow> (Inl e, s') | Inr (_, d) \<Rightarrow> (Inl e, s'\<lparr>tables := d\<rparr>)))"

text \<open>
  The pattern \<open>tx, err := s.pool.Begin(ctx); defer tx.Rollback(ctx); ...; tx.Commit(ctx)\<close>: the body
  returns an error, or a value without having committed (an early \<open>return\<close>), or a value it is about
  to commit.
\<close>

datatype 'a tx_end = NoCommit 'a | Commit 'a

definition in_tx :: "string \<Rightarrow> (pg, 'a tx_end) res \<Rightarrow> (pg, 'a) res" where
  "in_tx nm body s =
     (case wrapE (nm @ '': begin transaction'') (db_query (\<lambda>_. Inr ())) s of
        (Inl e, s1) \<Rightarrow> (Inl e, s1)
      | (Inr _, s1) \<Rightarrow>
          (case body s1 of
             (Inl e, s2) \<Rightarrow> (Inl e, s2\<lparr>tables := tables s1\<rparr>)
           | (Inr (NoCommit a), s2) \<Rightarrow> (Inr a, s2\<lparr>tables := tables s1\<rparr>)
           | (Inr (Commit a), s2) \<Rightarrow>
               (case next_fault s2 of
                  (NoFault, s3) \<Rightarrow> (Inr a, s3)
                | (Refused e, s3) \<Rightarrow> (Inl (Wrap (nm @ '': commit'') e), s3\<lparr>tables := tables s1\<rparr>)
                | (ReplyLost e, s3) \<Rightarrow> (Inl (Wrap (nm @ '': commit'') e), s3))))"

section \<open>The helpers\<close>

definition insertStatus ::
  "pgx \<Rightarrow> uuid \<Rightarrow> task_state \<Rightarrow> uint64 option \<Rightarrow> string \<Rightarrow> (pg, unit) res" where
  "insertStatus px taskID state assignedTo errMsg s =
     (let assigned = map_option int64_of_uint64 assignedTo;
          errVal = (if errMsg \<noteq> '''' then Some errMsg else None)
      in wrapE (''insert status'')
           (db_exec (\<lambda>s'. map_sum id (Pair ())
              (sql_insert_status (uuidv7 px (drawn s)) (now s') taskID state assigned errVal (tables s'))))
           (s\<lparr>drawn := Suc (drawn s)\<rparr>))"

definition latestStatus :: "uuid \<Rightarrow> (pg, task_state) res" where
  "latestStatus taskID =
     wrapE ''latest status'' (db_query (\<lambda>s.
       case sql_latest_status taskID (tables s) of
         None \<Rightarrow> Inl (Failure ''no rows in result set'')
       | Some st \<Rightarrow> Inr st))"

definition ensureLeaseOwner :: "uuid \<Rightarrow> uint64 \<Rightarrow> (pg, unit) res" where
  "ensureLeaseOwner taskID workerID =
     bindE (wrapE ''check lease owner''
       (db_query (\<lambda>s. Inr (sql_check_lease_owner taskID (int64_of_uint64 workerID) (tables s)))))
     (\<lambda>ok. if \<not> ok then throwE (NotLeased taskID workerID) else returnE ())"

definition ensureLatestStatusIn :: "uuid \<Rightarrow> task_state list \<Rightarrow> (pg, unit) res" where
  "ensureLatestStatusIn taskID allowed =
     bindE (latestStatus taskID)
     (\<lambda>status. if status \<notin> set allowed then throwE (InvalidStatus taskID (state_string status))
               else returnE ())"

definition deleteLease :: "uuid \<Rightarrow> uint64 \<Rightarrow> (pg, unit) res" where
  "deleteLease taskID workerID =
     db_exec (\<lambda>s. Inr ((), sql_delete_lease taskID (int64_of_uint64 workerID) (tables s)))"

text \<open>\<open>int64(s.leaseDuration / time.Second)\<close>\<close>

definition leaseSeconds :: "postgres_store \<Rightarrow> int" where
  "leaseSeconds st = go_div (leaseDuration st) 1000000000"

section \<open>The types of task/model.go and task/task.go\<close>

record task =
  task_ID :: uuid
  task_Executable :: string
  task_InputURI :: string
  task_OutputURI :: string
  task_Args :: "string list"
  task_MaxRetries :: int
  task_CreatedAt :: timestamp

record lease =
  lease_TaskID :: uuid
  lease_WorkerID :: uint64
  lease_ExpiresAt :: timestamp

section \<open>The operations\<close>

text \<open>The \<open>rows.Scan\<close> of \<open>ClaimQueued\<close>; \<open>input_uri\<close> and \<open>output_uri\<close> are nullable columns.\<close>

definition scan_task :: "pgx \<Rightarrow> task_row \<Rightarrow> error + task" where
  "scan_task px r =
     (case scan_text px (t_input_uri r) of
        Inl e \<Rightarrow> Inl e
      | Inr inp \<Rightarrow>
          (case scan_text px (t_output_uri r) of
             Inl e \<Rightarrow> Inl e
           | Inr out \<Rightarrow> Inr \<lparr>task_ID = t_id r, task_Executable = t_executable r, task_InputURI = inp,
               task_OutputURI = out, task_Args = t_args r, task_MaxRetries = t_max_retries r,
               task_CreatedAt = t_created_at r\<rparr>))"

definition rows_err :: "(pg, unit) res" where
  "rows_err = db_query (\<lambda>_. Inr ())"

definition ClaimQueued :: "postgres_store \<Rightarrow> uint64 \<Rightarrow> int \<Rightarrow> (pg, task list) res" where
  "ClaimQueued st schedulerID batchSize =
     in_tx ''claim queued''
       (bindE (wrapE ''claim queued: query''
          (db_query (\<lambda>s. sql_claim_queued (locked_tasks s) batchSize (tables s))))
       (\<lambda>rows. bindE (wrapE ''claim queued: scan'' (liftE (collectE (scan_task (driver st)) rows)))
       (\<lambda>tasks. bindE (wrapE ''claim queued: rows'' rows_err)
       (\<lambda>_. if tasks = [] then returnE (NoCommit [])
            else bindE (forE (\<lambda>t. wrapE ''claim queued: mark scheduling''
                   (insertStatus (driver st) (task_ID t) StateScheduling (Some schedulerID) '''')) tasks)
                 (\<lambda>_. returnE (Commit tasks))))))"

definition ActiveLeases :: "postgres_store \<Rightarrow> (pg, lease list) res" where
  "ActiveLeases st =
     bindE (wrapE ''active leases: query'' (db_query (\<lambda>s. Inr (sql_list_active_leases (tables s)))))
     (\<lambda>rows. bindE (wrapE ''active leases: rows'' rows_err)
     (\<lambda>_. returnE (map (\<lambda>(t, w, x).
        \<lparr>lease_TaskID = t, lease_WorkerID = uint64_of_int64 w, lease_ExpiresAt = x\<rparr>) rows)))"

definition RenewLease :: "postgres_store \<Rightarrow> uuid \<Rightarrow> uint64 \<Rightarrow> (pg, unit) res" where
  "RenewLease st taskID workerID =
     bindE (wrapE ''renew lease'' (db_exec (\<lambda>s.
        Inr (sql_renew_lease (now s) taskID (int64_of_uint64 workerID) (leaseSeconds st) (tables s)))))
     (\<lambda>affected. if affected = 0 then throwE (Wrap ''renew lease'' (NotLeased taskID workerID))
                 else returnE ())"

definition MarkAssigned :: "postgres_store \<Rightarrow> uuid \<Rightarrow> uint64 \<Rightarrow> (pg, unit) res" where
  "MarkAssigned st taskID workerID =
     in_tx ''mark assigned''
       (bindE (wrapE ''mark assigned'' (latestStatus taskID))
       (\<lambda>status. if status \<noteq> StateScheduling
          then throwE (Wrap ''mark assigned'' (InvalidStatus taskID (state_string status)))
          else bindE (wrapE ''mark assigned''
                 (insertStatus (driver st) taskID StateAssigned (Some workerID) ''''))
          (\<lambda>_. bindE (wrapE ''mark assigned: upsert lease'' (db_exec (\<lambda>s. map_sum id (Pair ())
                 (sql_upsert_lease (now s) taskID (int64_of_uint64 workerID) (leaseSeconds st) (tables s)))))
          (\<lambda>_. returnE (Commit ())))))"

definition MarkRunning :: "postgres_store \<Rightarrow> uuid \<Rightarrow> uint64 \<Rightarrow> (pg, unit) res" where
  "MarkRunning st taskID workerID =
     in_tx ''mark running''
       (bindE (wrapE ''mark running'' (ensureLeaseOwner taskID workerID))
       (\<lambda>_. bindE (wrapE ''mark running'' (ensureLatestStatusIn taskID [StateAssigned, StateRunning]))
       (\<lambda>_. bindE (wrapE ''mark running''
              (insertStatus (driver st) taskID StateRunning (Some workerID) ''''))
       (\<lambda>_. returnE (Commit ())))))"

definition MarkCompleted :: "postgres_store \<Rightarrow> uuid \<Rightarrow> uint64 \<Rightarrow> (pg, unit) res" where
  "MarkCompleted st taskID workerID =
     in_tx ''mark completed''
       (bindE (wrapE ''mark completed'' (ensureLeaseOwner taskID workerID))
       (\<lambda>_. bindE (wrapE ''mark completed'' (ensureLatestStatusIn taskID [StateRunning]))
       (\<lambda>_. bindE (wrapE ''mark completed''
              (insertStatus (driver st) taskID StateCompleted (Some workerID) ''''))
       (\<lambda>_. bindE (wrapE ''mark completed: delete lease'' (deleteLease taskID workerID))
       (\<lambda>_. returnE (Commit ()))))))"

definition MarkFailed :: "postgres_store \<Rightarrow> uuid \<Rightarrow> uint64 \<Rightarrow> string \<Rightarrow> (pg, unit) res" where
  "MarkFailed st taskID workerID errMsg =
     in_tx ''mark failed''
       (bindE (wrapE ''mark failed'' (ensureLeaseOwner taskID workerID))
       (\<lambda>_. bindE (wrapE ''mark failed'' (ensureLatestStatusIn taskID [StateAssigned, StateRunning]))
       (\<lambda>_. bindE (wrapE ''mark failed''
              (insertStatus (driver st) taskID StateFailed (Some workerID) errMsg))
       (\<lambda>_. bindE (wrapE ''mark failed: delete lease'' (deleteLease taskID workerID))
       (\<lambda>_. bindE (wrapE ''mark failed: count retries'' (db_query (\<lambda>s.
              case sql_count_failed taskID (tables s) of
                None \<Rightarrow> Inl (Failure ''no rows in result set'') | Some c \<Rightarrow> Inr c)))
       (\<lambda>(failedCount, maxRetries).
          if failedCount < maxRetries
          then bindE (wrapE ''mark failed: requeue''
                 (insertStatus (driver st) taskID StateQueued None ''''))
               (\<lambda>_. returnE (Commit ()))
          else returnE (Commit ())))))))"

definition MarkWorkerLost :: "postgres_store \<Rightarrow> uuid \<Rightarrow> uint64 \<Rightarrow> string \<Rightarrow> (pg, unit) res" where
  "MarkWorkerLost st taskID workerID errMsg =
     in_tx ''mark worker lost''
       (bindE (wrapE ''mark worker lost''
          (ensureLatestStatusIn taskID [StateAssigned, StateRunning]))
       (\<lambda>_. bindE (wrapE ''mark worker lost''
              (insertStatus (driver st) taskID StateWorkerLost (Some workerID) errMsg))
       (\<lambda>_. bindE (wrapE ''mark worker lost: delete lease'' (deleteLease taskID workerID))
       (\<lambda>_. bindE (wrapE ''mark worker lost: requeue''
              (insertStatus (driver st) taskID StateQueued None ''''))
       (\<lambda>_. returnE (Commit ()))))))"

text \<open>The loop body that both lease recoveries share.\<close>

definition requeue_lease :: "pgx \<Rightarrow> string \<Rightarrow> string \<Rightarrow> uuid \<times> uint64 \<Rightarrow> (pg, unit) res" where
  "requeue_lease px nm reason lease =
     bindE (wrapE (nm @ '': mark worker lost'')
       (insertStatus px (fst lease) StateWorkerLost (Some (snd lease)) reason))
     (\<lambda>_. bindE (wrapE (nm @ '': delete lease'') (deleteLease (fst lease) (snd lease)))
     (\<lambda>_. wrapE (nm @ '': requeue'') (insertStatus px (fst lease) StateQueued None '''')))"

definition scan_expired :: "pgx \<Rightarrow> uuid \<times> int \<Rightarrow> error + uuid \<times> uint64" where
  "scan_expired px row =
     (case scan_uint64 px (snd row) of Inl e \<Rightarrow> Inl e | Inr w \<Rightarrow> Inr (fst row, w))"

definition RecoverExpiredLeases :: "postgres_store \<Rightarrow> (pg, nat) res" where
  "RecoverExpiredLeases st =
     in_tx ''recover expired leases''
       (bindE (wrapE ''recover expired leases: query''
          (db_query (\<lambda>s. Inr (sql_select_expired_leases (locked_leases s) (now s) (tables s)))))
       (\<lambda>rows. bindE (wrapE ''recover expired leases: scan''
                 (liftE (collectE (scan_expired (driver st)) rows)))
       (\<lambda>leases. bindE (wrapE ''recover expired leases: rows'' rows_err)
       (\<lambda>_. if leases = [] then returnE (NoCommit 0)
            else bindE (forE (requeue_lease (driver st) ''recover expired leases'' ''lease expired'') leases)
                 (\<lambda>_. returnE (Commit (length leases)))))))"

definition RecoverDeadWorkerLeases ::
  "postgres_store \<Rightarrow> (uint64, 'm) gomap \<Rightarrow> (pg, nat) res" where
  "RecoverDeadWorkerLeases st alive =
     in_tx ''recover dead worker leases''
       (bindE (wrapE ''recover dead worker leases: query''
          (db_query (\<lambda>s. Inr (sql_select_active_leases (locked_leases s) (tables s)))))
       (\<lambda>rows. bindE (wrapE ''recover dead worker leases: rows'' rows_err)
       (\<lambda>_. let deadLeases = filter (\<lambda>l. map_of alive (snd l) = None)
                  (map (\<lambda>(t, w). (t, uint64_of_int64 w)) rows)
            in if deadLeases = [] then returnE (NoCommit 0)
            else bindE (forE (requeue_lease (driver st) ''recover dead worker leases''
                         ''worker not alive during leader recovery'') deadLeases)
                 (\<lambda>_. returnE (Commit (length deadLeases))))))"

definition RecoverStaleScheduling :: "postgres_store \<Rightarrow> (pg, nat) res" where
  "RecoverStaleScheduling st =
     in_tx ''recover stale scheduling''
       (bindE (wrapE ''recover stale scheduling: query''
          (db_query (\<lambda>s. Inr (sql_select_stale_scheduling (locked_tasks s) (tables s)))))
       (\<lambda>taskIDs. bindE (wrapE ''recover stale scheduling: rows'' rows_err)
       (\<lambda>_. if taskIDs = [] then returnE (NoCommit 0)
            else bindE (forE (\<lambda>t. wrapE ''recover stale scheduling: requeue''
                   (insertStatus (driver st) t StateQueued None ''recovered stale scheduling'')) taskIDs)
                 (\<lambda>_. returnE (Commit (length taskIDs))))))"

end
