(* ===== verification/TaskMachine.thy ===== *)
theory TaskMachine
  imports Tables
begin

text \<open>
  The abstract specification of the task store, as \<open>docs/design.md\<close> describes it: every task has an
  append-only history of states, at most one lease, and a retry limit; the steps are the legal
  moves of one task. The safety properties of the task lifecycle are proved here once, by rule
  induction over the steps; theory \<open>StoreRefine\<close> shows that every operation of \<open>PostgresStore\<close> is a
  sequence of these steps.
\<close>

section \<open>Abstract states and steps\<close>

record astore =
  a_hist :: "uuid \<Rightarrow> task_state list"
  a_lease :: "uuid \<Rightarrow> (int \<times> timestamp) option"
  a_max :: "uuid \<Rightarrow> int option"

definition a_append :: "uuid \<Rightarrow> task_state list \<Rightarrow> astore \<Rightarrow> astore" where
  "a_append t sts a = a\<lparr>a_hist := (a_hist a)(t := a_hist a t @ sts)\<rparr>"

definition a_set_lease :: "uuid \<Rightarrow> (int \<times> timestamp) option \<Rightarrow> astore \<Rightarrow> astore" where
  "a_set_lease t v a = a\<lparr>a_lease := (a_lease a)(t := v)\<rparr>"

definition a_last :: "astore \<Rightarrow> uuid \<Rightarrow> task_state option" where
  "a_last a t = (if a_hist a t = [] then None else Some (last (a_hist a t)))"

definition a_failed :: "astore \<Rightarrow> uuid \<Rightarrow> int" where
  "a_failed a t = int (count_list (a_hist a t) StateFailed)"

definition active :: "task_state option \<Rightarrow> bool" where
  "active st \<longleftrightarrow> st = Some StateAssigned \<or> st = Some StateRunning"

inductive astep :: "astore \<Rightarrow> astore \<Rightarrow> bool" where
  claim: "a_last a t = Some StateQueued \<or> a_last a t = Some StateWorkerLost \<Longrightarrow>
    a_max a t = Some m \<Longrightarrow> a_failed a t < m \<Longrightarrow> astep a (a_append t [StateScheduling] a)"
| assign: "a_last a t = Some StateScheduling \<Longrightarrow>
    astep a (a_set_lease t (Some (w, x)) (a_append t [StateAssigned] a))"
| run: "a_lease a t = Some (w, x) \<Longrightarrow> active (a_last a t) \<Longrightarrow>
    astep a (a_append t [StateRunning] a)"
| renew: "a_lease a t = Some (w, x) \<Longrightarrow> astep a (a_set_lease t (Some (w, x')) a)"
| complete: "a_lease a t = Some (w, x) \<Longrightarrow> a_last a t = Some StateRunning \<Longrightarrow>
    astep a (a_set_lease t None (a_append t [StateCompleted] a))"
| fail_requeue: "a_lease a t = Some (w, x) \<Longrightarrow> active (a_last a t) \<Longrightarrow> a_max a t = Some m \<Longrightarrow>
    a_failed a t + 1 < m \<Longrightarrow>
    astep a (a_set_lease t None (a_append t [StateFailed, StateQueued] a))"
| fail_final: "a_lease a t = Some (w, x) \<Longrightarrow> active (a_last a t) \<Longrightarrow> a_max a t = Some m \<Longrightarrow>
    \<not> a_failed a t + 1 < m \<Longrightarrow>
    astep a (a_set_lease t None (a_append t [StateFailed] a))"
| lose: "a_lease a t = Some (w, x) \<Longrightarrow>
    astep a (a_set_lease t None (a_append t [StateWorkerLost, StateQueued] a))"
| unschedule: "a_last a t = Some StateScheduling \<Longrightarrow> a_lease a t = None \<Longrightarrow>
    astep a (a_append t [StateQueued] a)"

section \<open>Automation\<close>

named_theorems amachine "projections of the abstract updates"

lemma a_append_proj [amachine]:
  "a_hist (a_append t sts a) = (a_hist a)(t := a_hist a t @ sts)"
  "a_lease (a_append t sts a) = a_lease a"
  "a_max (a_append t sts a) = a_max a"
  by (simp_all add: a_append_def)

lemma a_set_lease_proj [amachine]:
  "a_hist (a_set_lease t v a) = a_hist a"
  "a_lease (a_set_lease t v a) = (a_lease a)(t := v)"
  "a_max (a_set_lease t v a) = a_max a"
  by (simp_all add: a_set_lease_def)

lemma a_last_append [amachine]:
  "a_last (a_append t sts a) u = (if u = t \<and> sts \<noteq> [] then Some (last sts) else a_last a u)"
  by (auto simp: a_last_def a_append_def)

lemma a_last_set_lease [amachine]: "a_last (a_set_lease t v a) u = a_last a u"
  by (simp add: a_last_def a_set_lease_def)

lemma a_failed_append [amachine]:
  "a_failed (a_append t sts a) u =
     (if u = t then a_failed a u + int (count_list sts StateFailed) else a_failed a u)"
  by (simp add: a_failed_def a_append_def)

lemma a_failed_set_lease [amachine]: "a_failed (a_set_lease t v a) u = a_failed a u"
  by (simp add: a_failed_def a_set_lease_def)

lemma active_simps [simp]:
  "active (Some StateAssigned)" "active (Some StateRunning)" "\<not> active None"
  "\<not> active (Some StateQueued)" "\<not> active (Some StateScheduling)" "\<not> active (Some StateFailed)"
  "\<not> active (Some StateWorkerLost)" "\<not> active (Some StateCompleted)"
  by (simp_all add: active_def)

section \<open>The invariant: a lease protects exactly the assigned and running tasks\<close>

definition lease_inv :: "astore \<Rightarrow> bool" where
  "lease_inv a \<longleftrightarrow> (\<forall>t. a_lease a t = None \<longleftrightarrow> \<not> active (a_last a t))"

lemma lease_invD: "lease_inv a \<Longrightarrow> a_lease a t = Some v \<Longrightarrow> active (a_last a t)"
  by (metis lease_inv_def option.distinct(1))

lemma lease_inv_None: "lease_inv a \<Longrightarrow> \<not> active (a_last a t) \<Longrightarrow> a_lease a t = None"
  by (simp add: lease_inv_def)

lemma lease_inv_move:
  "lease_inv a \<Longrightarrow> sts \<noteq> [] \<Longrightarrow> v = None \<longleftrightarrow> \<not> active (Some (last sts)) \<Longrightarrow>
     lease_inv (a_set_lease t v (a_append t sts a))"
  by (simp add: lease_inv_def amachine)

lemma lease_inv_append:
  "lease_inv a \<Longrightarrow> sts \<noteq> [] \<Longrightarrow> active (a_last a t) = active (Some (last sts)) \<Longrightarrow>
     lease_inv (a_append t sts a)"
  by (simp add: lease_inv_def amachine)

lemma lease_inv_renew: "lease_inv a \<Longrightarrow> a_lease a t = Some v \<Longrightarrow> lease_inv (a_set_lease t (Some v') a)"
  using lease_invD [of a t v] by (simp add: lease_inv_def amachine)

lemma astep_lease_inv: "astep a b \<Longrightarrow> lease_inv a \<Longrightarrow> lease_inv b"
  by (induction rule: astep.induct) (auto intro: lease_inv_move lease_inv_append lease_inv_renew)

section \<open>The retry budget\<close>

text \<open>
  A task that is being scheduled or executed has failed fewer times than its limit, and no task
  has failed more often than its limit.
\<close>

definition in_flight :: "task_state option \<Rightarrow> bool" where
  "in_flight st \<longleftrightarrow> st = Some StateScheduling \<or> active st"

definition budget_inv :: "astore \<Rightarrow> bool" where
  "budget_inv a \<longleftrightarrow>
     (\<forall>t m. a_max a t = Some m \<longrightarrow> a_failed a t \<le> max 0 m \<and> (in_flight (a_last a t) \<longrightarrow> a_failed a t < m))"

lemma budget_invD:
  "budget_inv a \<Longrightarrow> a_max a t = Some m \<Longrightarrow> in_flight (a_last a t) \<Longrightarrow> a_failed a t < m"
  by (simp add: budget_inv_def)

lemma active_in_flight: "active st \<Longrightarrow> in_flight st"
  by (simp add: in_flight_def)

lemma a_failed_nonneg [simp]: "0 \<le> a_failed a t"
  by (simp add: a_failed_def)

lemma astep_budget_inv: "astep a b \<Longrightarrow> budget_inv a \<Longrightarrow> lease_inv a \<Longrightarrow> budget_inv b"
  by (induction rule: astep.induct)
    (fastforce simp: budget_inv_def amachine in_flight_def active_def dest: lease_invD)+

section \<open>The lifecycle\<close>

text \<open>The arrows of the task lifecycle of \<open>docs/design.md\<close>.\<close>

fun legal :: "task_state \<Rightarrow> task_state \<Rightarrow> bool" where
  "legal StateQueued st \<longleftrightarrow> st = StateScheduling"
| "legal StateScheduling st \<longleftrightarrow> st = StateAssigned \<or> st = StateQueued"
| "legal StateAssigned st \<longleftrightarrow> st = StateRunning \<or> st = StateFailed \<or> st = StateWorkerLost"
| "legal StateRunning st \<longleftrightarrow>
     st = StateRunning \<or> st = StateCompleted \<or> st = StateFailed \<or> st = StateWorkerLost"
| "legal StateFailed st \<longleftrightarrow> st = StateQueued"
| "legal StateWorkerLost st \<longleftrightarrow> st = StateQueued \<or> st = StateScheduling"
| "legal StateCompleted st \<longleftrightarrow> False"

fun legal_history :: "task_state list \<Rightarrow> bool" where
  "legal_history [] \<longleftrightarrow> True"
| "legal_history [x] \<longleftrightarrow> x = StateQueued"
| "legal_history (x # y # zs) \<longleftrightarrow> x = StateQueued \<and> successively legal (x # y # zs)"

lemma legal_history_iff:
  "legal_history xs \<longleftrightarrow> (xs \<noteq> [] \<longrightarrow> hd xs = StateQueued) \<and> successively legal xs"
  by (induction xs rule: legal_history.induct) auto

lemma legal_history_append:
  assumes "legal_history xs" and "xs \<noteq> []" and "successively legal (last xs # ys)"
  shows "legal_history (xs @ ys)"
  using assms by (cases ys) (auto simp: legal_history_iff successively_append_iff)

definition lifecycle_inv :: "astore \<Rightarrow> bool" where
  "lifecycle_inv a \<longleftrightarrow> (\<forall>t. legal_history (a_hist a t))"

lemma a_last_Some: "a_last a t = Some st \<longleftrightarrow> a_hist a t \<noteq> [] \<and> last (a_hist a t) = st"
  by (auto simp: a_last_def)

lemma lifecycle_inv_append:
  assumes "lifecycle_inv a" and "a_last a t = Some st" and "successively legal (st # sts)"
  shows "lifecycle_inv (a_append t sts a)"
  using assms by (auto simp: lifecycle_inv_def amachine a_last_Some intro: legal_history_append)

lemma lifecycle_inv_set_lease [simp]: "lifecycle_inv (a_set_lease t v a) = lifecycle_inv a"
  by (simp add: lifecycle_inv_def amachine)

lemma astep_lifecycle_inv: "astep a b \<Longrightarrow> lifecycle_inv a \<Longrightarrow> lease_inv a \<Longrightarrow> lifecycle_inv b"
proof (induction rule: astep.induct)
  case (lose a t w x)
  then have "active (a_last a t)" by (blast dest: lease_invD)
  with lose show ?case by (auto simp: active_def intro: lifecycle_inv_append)
qed (auto simp: active_def intro: lifecycle_inv_append)

section \<open>Histories only grow\<close>

lemma astep_hist_prefix: "astep a b \<Longrightarrow> \<exists>sts. a_hist b t = a_hist a t @ sts"
  by (induction rule: astep.induct) (auto simp: amachine)

lemma astep_max: "astep a b \<Longrightarrow> a_max b = a_max a"
  by (induction rule: astep.induct) (auto simp: amachine)

text \<open>A completed task is never touched again.\<close>

lemma astep_completed:
  "astep a b \<Longrightarrow> lease_inv a \<Longrightarrow> a_last a t = Some StateCompleted \<Longrightarrow>
     a_hist b t = a_hist a t \<and> a_lease b t = None"
  by (induction rule: astep.induct) (auto simp: amachine lease_inv_None dest: lease_invD)

text \<open>A task that spent its retry budget is never scheduled again.\<close>

lemma astep_exhausted:
  "astep a b \<Longrightarrow> lease_inv a \<Longrightarrow> budget_inv a \<Longrightarrow> a_max a t = Some m \<Longrightarrow> m \<le> a_failed a t \<Longrightarrow>
     a_hist b t = a_hist a t"
proof (induction rule: astep.induct)
  case (lose a u w x)
  have "active (a_last a u)" using lose by (blast dest: lease_invD)
  then show ?case using lose budget_invD [OF lose(3), of u] by (auto simp: amachine in_flight_def)
next
  case (renew a u w x x')
  then show ?case by (simp add: amachine)
qed (auto simp: amachine in_flight_def dest: budget_invD)

section \<open>Sequences of steps\<close>

definition machine_inv :: "astore \<Rightarrow> bool" where
  "machine_inv a \<longleftrightarrow> lease_inv a \<and> budget_inv a \<and> lifecycle_inv a"

lemma astep_machine_inv: "astep a b \<Longrightarrow> machine_inv a \<Longrightarrow> machine_inv b"
  using astep_lease_inv astep_budget_inv astep_lifecycle_inv by (simp add: machine_inv_def)

lemma asteps_machine_inv: "astep\<^sup>*\<^sup>* a b \<Longrightarrow> machine_inv a \<Longrightarrow> machine_inv b"
  by (induction rule: rtranclp_induct) (auto intro: astep_machine_inv)

lemma asteps_hist_prefix: "astep\<^sup>*\<^sup>* a b \<Longrightarrow> \<exists>sts. a_hist b t = a_hist a t @ sts"
proof (induction rule: rtranclp_induct)
  case (step b c)
  then show ?case using astep_hist_prefix [of b c t] by auto
qed simp

lemma asteps_completed:
  assumes "astep\<^sup>*\<^sup>* a b" and "machine_inv a" and "a_last a t = Some StateCompleted"
  shows "a_hist b t = a_hist a t \<and> a_lease b t = None"
  using assms
proof (induction rule: rtranclp_induct)
  case base
  then show ?case by (auto simp: machine_inv_def intro: lease_inv_None)
next
  case (step b c)
  then have "a_last b t = Some StateCompleted" by (simp add: a_last_Some)
  moreover have "machine_inv b" using step by (blast intro: asteps_machine_inv)
  ultimately show ?case
    using step astep_completed [of b c t] by (simp add: machine_inv_def)
qed

lemma asteps_exhausted:
  assumes "astep\<^sup>*\<^sup>* a b" and "machine_inv a" and "a_max a t = Some m" and "m \<le> a_failed a t"
  shows "a_hist b t = a_hist a t \<and> a_max b t = Some m"
  using assms
proof (induction rule: rtranclp_induct)
  case base
  then show ?case by simp
next
  case (step b c)
  then have "m \<le> a_failed b t" by (simp add: a_failed_def)
  moreover have "machine_inv b" using step by (blast intro: asteps_machine_inv)
  ultimately show ?case
    using step astep_exhausted [of b c t m] astep_max [of b c] by (simp add: machine_inv_def)
qed

text \<open>The same step on each of several tasks.\<close>

definition bulk :: "uuid set \<Rightarrow> task_state list \<Rightarrow> astore \<Rightarrow> astore" where
  "bulk T sts a = a\<lparr>a_hist := \<lambda>t. if t \<in> T then a_hist a t @ sts else a_hist a t\<rparr>"

definition bulk_lose :: "uuid set \<Rightarrow> astore \<Rightarrow> astore" where
  "bulk_lose T a = (bulk T [StateWorkerLost, StateQueued] a)\<lparr>a_lease := \<lambda>t. if t \<in> T then None else a_lease a t\<rparr>"

lemma bulk_insert: "t \<notin> T \<Longrightarrow> bulk (insert t T) sts a = a_append t sts (bulk T sts a)"
  by (auto simp: bulk_def a_append_def fun_eq_iff)

lemma bulk_lose_insert:
  "t \<notin> T \<Longrightarrow> bulk_lose (insert t T) a =
     a_set_lease t None (a_append t [StateWorkerLost, StateQueued] (bulk_lose T a))"
  by (auto simp: bulk_lose_def bulk_def a_append_def a_set_lease_def fun_eq_iff)

lemma bulk_other: "t \<notin> T \<Longrightarrow> a_last (bulk T sts a) t = a_last a t"
    "t \<notin> T \<Longrightarrow> a_failed (bulk T sts a) t = a_failed a t"
    "a_max (bulk T sts a) = a_max a" "a_lease (bulk T sts a) = a_lease a"
  by (simp_all add: bulk_def a_last_def a_failed_def)

lemma asteps_bulk:
  assumes "finite T"
    and "\<And>t b. t \<in> T \<Longrightarrow> a_last b t = a_last a t \<Longrightarrow> a_failed b t = a_failed a t \<Longrightarrow>
           a_lease b t = a_lease a t \<Longrightarrow> a_max b t = a_max a t \<Longrightarrow> astep b (a_append t sts b)"
  shows "astep\<^sup>*\<^sup>* a (bulk T sts a)"
  using assms
proof (induction T rule: finite_induct)
  case empty
  then show ?case by (simp add: bulk_def)
next
  case (insert t T)
  then have "astep\<^sup>*\<^sup>* a (bulk T sts a)" by simp
  moreover have "astep (bulk T sts a) (a_append t sts (bulk T sts a))"
    using insert by (auto simp: bulk_other)
  ultimately show ?case using insert.hyps by (simp add: bulk_insert rtranclp.rtrancl_into_rtrancl)
qed

lemma asteps_bulk_lose:
  assumes "finite T" and "\<And>t. t \<in> T \<Longrightarrow> a_lease a t \<noteq> None"
  shows "astep\<^sup>*\<^sup>* a (bulk_lose T a)"
  using assms
proof (induction T rule: finite_induct)
  case empty
  then show ?case by (simp add: bulk_lose_def bulk_def)
next
  case (insert t T)
  then obtain w x where "a_lease a t = Some (w, x)" by fastforce
  then have "a_lease (bulk_lose T a) t = Some (w, x)"
    using insert.hyps by (simp add: bulk_lose_def)
  then have "astep (bulk_lose T a) (bulk_lose (insert t T) a)"
    using insert.hyps by (simp add: bulk_lose_insert astep.lose)
  then show ?case using insert by (simp add: rtranclp.rtrancl_into_rtrancl)
qed

end
