(* ===== verification/StoreRefine.thy ===== *)
theory StoreRefine
  imports Store TaskMachine
begin

text \<open>
  Every operation of \<open>PostgresStore\<close> refines the abstract task machine: whatever its outcome (a
  value, an error at any database call, a commit whose reply was lost), the tables it leaves are
  reached from those it found by steps of the machine; on an error that did not lose a reply they
  are unchanged. The first part is a small calculus for sessions and transactions, the second the
  effect of each operation on the abstraction of the tables.
\<close>

section \<open>Sessions\<close>

definition sess :: "pg \<Rightarrow> timestamp \<times> uuid list \<times> uuid list" where
  "sess s = (now s, locked_tasks s, locked_leases s)"

definition core :: "pg \<Rightarrow> db \<times> nat \<times> timestamp \<times> uuid list \<times> uuid list" where
  "core s = (tables s, drawn s, sess s)"

lemma coreD: "core s' = core s \<Longrightarrow>
   tables s' = tables s \<and> drawn s' = drawn s \<and> now s' = now s \<and>
   locked_tasks s' = locked_tasks s \<and> locked_leases s' = locked_leases s \<and> sess s' = sess s"
  by (simp add: core_def sess_def)

lemma sess_update [simp]:
  "sess (s\<lparr>tables := d\<rparr>) = sess s" "sess (s\<lparr>drawn := n\<rparr>) = sess s" "sess (s\<lparr>faults := fs\<rparr>) = sess s"
  by (simp_all add: sess_def)

lemma next_fault_core: "next_fault s = (f, s') \<Longrightarrow> core s' = core s"
  by (auto simp: next_fault_def core_def split: list.splits)

lemma db_query_Inr: "db_query q s = (Inr a, s') \<Longrightarrow> core s' = core s \<and> q s' = Inr a"
  using next_fault_core [of s] by (auto simp: db_query_def split: prod.splits fault.splits)

lemma db_query_core: "core (snd (db_query q s)) = core s"
  using next_fault_core [of s] by (auto simp: db_query_def split: prod.splits fault.splits)

lemma db_exec_Inr:
  "db_exec stmt s = (Inr a, s') \<Longrightarrow>
     \<exists>s0. core s0 = core s \<and> stmt s0 = Inr (a, tables s') \<and> drawn s' = drawn s \<and> sess s' = sess s"
  using next_fault_core [of s]
  by (fastforce simp: db_exec_def core_def split: prod.splits fault.splits sum.splits)

text \<open>No operation changes the clock or the locks of a session, and ids are only ever drawn.\<close>

definition moves :: "(pg, 'a) res \<Rightarrow> bool" where
  "moves m \<longleftrightarrow> (\<forall>s0. keepsE (\<lambda>s. sess s = sess s0 \<and> drawn s0 \<le> drawn s) m)"

lemma movesD: "moves m \<Longrightarrow> m s = (r, s') \<Longrightarrow> sess s' = sess s \<and> drawn s \<le> drawn s'"
  unfolding moves_def by (blast dest: keepsED)

lemma moves_intros:
  "moves m \<Longrightarrow> (\<And>a. moves (k a)) \<Longrightarrow> moves (bindE m k)"
  "moves n \<Longrightarrow> moves (wrapE c n)" "moves (returnE b)" "moves (throwE e)" "moves (liftE r)"
  "(\<And>x. moves (f x)) \<Longrightarrow> moves (forE f xs)"
  by (auto simp: moves_def intro: keepsE_intros)

lemma movesI: "(\<And>s r s'. m s = (r, s') \<Longrightarrow> sess s' = sess s \<and> drawn s \<le> drawn s') \<Longrightarrow> moves m"
  unfolding moves_def keepsE_def by (metis le_trans surjective_pairing)

lemma moves_db_query: "moves (db_query q)"
  by (rule movesI, auto simp: db_query_def dest!: next_fault_core coreD split: prod.splits fault.splits)

lemma moves_db_exec: "moves (db_exec q)"
  by (rule movesI, auto simp: db_exec_def dest!: next_fault_core coreD
       split: prod.splits fault.splits sum.splits)

lemma moves_insertStatus: "moves (insertStatus px t st who err)"
proof (rule movesI)
  fix s r s'
  assume *: "insertStatus px t st who err s = (r, s')"
  have "moves (wrapE c (db_exec q))" for c q
    by (intro moves_intros moves_db_exec)
  from movesD [OF this * [unfolded insertStatus_def Let_def]]
  show "sess s' = sess s \<and> drawn s \<le> drawn s'" by simp
qed

lemma moves_helpers:
  "moves (latestStatus t)" "moves (ensureLeaseOwner t w)" "moves (ensureLatestStatusIn t sts)"
  "moves (deleteLease t w)" "moves rows_err" "moves (requeue_lease px nm reason l)"
  unfolding latestStatus_def ensureLeaseOwner_def ensureLatestStatusIn_def deleteLease_def
    rows_err_def requeue_lease_def
  by (auto intro!: moves_intros moves_db_query moves_db_exec moves_insertStatus)

lemmas moves_rules = moves_intros moves_db_query moves_db_exec moves_insertStatus moves_helpers

section \<open>The abstraction of the tables\<close>

definition lease_of :: "db \<Rightarrow> uuid \<Rightarrow> (int \<times> timestamp) option" where
  "lease_of d = map_of (map (\<lambda>l. (l_task_id l, (l_worker_id l, l_expires_at l))) (lease_table d))"

definition max_of :: "db \<Rightarrow> uuid \<Rightarrow> int option" where
  "max_of d = map_of (map (\<lambda>r. (t_id r, t_max_retries r)) (task_table d))"

definition abs_db :: "db \<Rightarrow> astore" where
  "abs_db d = \<lparr>a_hist = history d, a_lease = lease_of d, a_max = max_of d\<rparr>"

text \<open>
  The primary keys of \<open>task\<close> and \<open>task_lease\<close>, the foreign key of \<open>task_status\<close>, and the range of a
  \<open>BIGINT\<close>.
\<close>

definition db_wf :: "db \<Rightarrow> bool" where
  "db_wf d \<longleftrightarrow> distinct (map t_id (task_table d)) \<and> distinct (map l_task_id (lease_table d)) \<and>
     (\<forall>l \<in> set (lease_table d). is_int64 (l_worker_id l)) \<and>
     (\<forall>r \<in> set (status_table d). has_task d (s_task_id r))"

text \<open>
  A session is well formed when, in addition, the rows of \<open>task_status\<close> are older than the next one
  will be: the clock does not run backwards and \<open>uuidv7()\<close> returns ever larger ids.
\<close>

definition pg_wf :: "pgx \<Rightarrow> pg \<Rightarrow> bool" where
  "pg_wf px s \<longleftrightarrow> strict_mono (uuidv7 px) \<and> db_wf (tables s) \<and>
     rows_before (now s) (uuidv7 px (drawn s)) (tables s)"

lemma abs_db_proj [amachine]:
  "a_hist (abs_db d) = history d" "a_lease (abs_db d) = lease_of d" "a_max (abs_db d) = max_of d"
  by (simp_all add: abs_db_def)

lemma a_last_abs [amachine]: "a_last (abs_db d) t = sql_latest_status t d"
  by (simp add: a_last_def abs_db_def sql_latest_status_history)

lemma a_failed_abs [amachine]: "a_failed (abs_db d) t = failed_count d t"
  by (simp add: a_failed_def abs_db_def failed_count_history)

lemma pg_wf_core: "core s' = core s \<Longrightarrow> pg_wf px s \<Longrightarrow> pg_wf px s'"
  by (auto simp: pg_wf_def dest: coreD)

lemma pg_wf_drawn:
  assumes "pg_wf px s" and "tables s' = tables s" and "sess s' = sess s" and "drawn s \<le> drawn s'"
  shows "pg_wf px s'"
proof -
  have "uuidv7 px (drawn s) \<le> uuidv7 px (drawn s')"
    using assms(1,4) by (simp add: pg_wf_def strict_mono_less_eq)
  with assms show ?thesis
    by (auto simp: pg_wf_def rows_before_def sess_def intro: order_less_le_trans)
qed

lemma lease_of_Some:
  assumes "db_wf d"
  shows "lease_of d t = Some (w, x) \<longleftrightarrow>
    (\<exists>l \<in> set (lease_table d). l_task_id l = t \<and> l_worker_id l = w \<and> l_expires_at l = x)"
proof -
  have "distinct (map fst (map (\<lambda>l. (l_task_id l, (l_worker_id l, l_expires_at l))) (lease_table d)))"
    using assms by (simp add: db_wf_def comp_def)
  then show ?thesis by (auto simp: lease_of_def map_of_eq_Some_iff image_iff)
qed

lemma check_owner_iff:
  "db_wf d \<Longrightarrow> sql_check_lease_owner t w d \<longleftrightarrow> (\<exists>x. lease_of d t = Some (w, x))"
  by (auto simp: sql_check_lease_owner_def lease_of_Some)

lemma lease_of_None: "lease_of d t = None \<longleftrightarrow> \<not> has_lease d t"
  by (auto simp: lease_of_def map_of_eq_None_iff has_lease_def image_iff)

lemma max_of_Some:
  "db_wf d \<Longrightarrow> r \<in> set (task_table d) \<Longrightarrow> max_of d (t_id r) = Some (t_max_retries r)"
  by (auto simp: db_wf_def max_of_def comp_def intro: map_of_is_SomeI)

section \<open>The statements on the abstraction\<close>

lemma insert_status_abs:
  assumes "sql_insert_status new tm t st who err d = Inr d'" and "rows_before tm new d"
  shows "abs_db d' = a_append t [st] (abs_db d)"
proof -
  have "history d' = (history d)(t := history d t @ [st])"
    using insert_status_history [OF assms] by (simp add: fun_eq_iff)
  moreover have "lease_of d' = lease_of d" and "max_of d' = max_of d"
    using insert_status_frame(1,2) [OF assms(1)] by (simp_all add: lease_of_def max_of_def)
  ultimately show ?thesis by (simp add: abs_db_def a_append_def)
qed

lemma delete_lease_abs:
  assumes "db_wf d" and "lease_of d t = Some (w, x)"
  shows "abs_db (sql_delete_lease t w d) = a_set_lease t None (abs_db d)"
proof -
  have "lease_of (sql_delete_lease t w d) u = ((lease_of d)(t := None)) u" for u
  proof -
    have wf': "db_wf (sql_delete_lease t w d)"
      using assms(1) by (auto simp: db_wf_def sql_delete_lease_def distinct_map inj_on_def)
    have "l_worker_id l = w" if "l \<in> set (lease_table d)" "l_task_id l = t" for l
      using that assms by (auto simp: lease_of_Some db_wf_def distinct_map inj_on_def)
    moreover have "set (lease_table (sql_delete_lease t w d)) =
        {l \<in> set (lease_table d). \<not> (l_task_id l = t \<and> l_worker_id l = w)}"
      by (simp add: sql_delete_lease_def)
    ultimately have "lease_of (sql_delete_lease t w d) u = Some v \<longleftrightarrow>
        ((lease_of d)(t := None)) u = Some v" for v
      by (cases v) (auto simp: lease_of_Some [OF wf'] lease_of_Some [OF assms(1)])
    then show ?thesis by (metis not_None_eq)
  qed
  then show ?thesis
    by (auto simp: abs_db_def a_set_lease_def sql_delete_lease_def max_of_def fun_eq_iff
        intro!: history_cong)
qed

lemma upsert_lease_abs:
  assumes "db_wf d" and "sql_upsert_lease tm t w dur d = Inr d'" and "is_int64 w"
  shows "abs_db d' = a_set_lease t (Some (w, lease_expiry tm dur)) (abs_db d) \<and> db_wf d'"
proof -
  let ?upd = "\<lambda>l. if l_task_id l = t
      then l\<lparr>l_worker_id := w, l_expires_at := lease_expiry tm dur, l_updated_at := tm\<rparr> else l"
  have ids: "map l_task_id (map ?upd ls) = map l_task_id ls" for ls by simp
  have upd: "map_of (map (\<lambda>l. (l_task_id l, (l_worker_id l, l_expires_at l))) (map ?upd ls)) u =
     (if u = t \<and> t \<in> l_task_id ` set ls then Some (w, lease_expiry tm dur)
      else map_of (map (\<lambda>l. (l_task_id l, (l_worker_id l, l_expires_at l))) ls) u)" for ls u
    by (induction ls) auto
  have "lease_of d' u = ((lease_of d)(t \<mapsto> (w, lease_expiry tm dur))) u" for u
  proof (cases "has_lease d t")
    case True
    then show ?thesis
      using assms(2) upd [of "lease_table d" u]
      by (auto simp: sql_upsert_lease_def lease_of_def has_lease_def split: if_splits)
  next
    case False
    then show ?thesis
      using assms(2) lease_of_None [of d t]
      by (auto simp: sql_upsert_lease_def lease_of_def map_add_def split: if_splits option.splits)
  qed
  moreover have "db_wf d'"
  proof (cases "has_lease d t")
    case True
    then have "lease_table d' = map ?upd (lease_table d)" and "task_table d' = task_table d"
      using assms(2) by (auto simp: sql_upsert_lease_def split: if_splits)
    then show ?thesis using assms(1,3) ids [of "lease_table d"] upsert_lease_frame [OF assms(2)]
      by (auto simp: db_wf_def simp del: map_map)
  next
    case False
    then show ?thesis
      using assms by (auto simp: sql_upsert_lease_def db_wf_def has_lease_def split: if_splits)
  qed
  moreover have "status_table d' = status_table d" and "task_table d' = task_table d"
    by (rule upsert_lease_frame(1,2) [OF assms(2)])+
  ultimately show ?thesis
    by (auto simp: abs_db_def a_set_lease_def max_of_def fun_eq_iff intro!: history_cong)
qed

lemma renew_lease_abs:
  assumes "db_wf d" and "sql_renew_lease tm t w dur d = (n, d')"
  shows "db_wf d'" and "status_table d' = status_table d"
    and "n \<noteq> 0 \<Longrightarrow> \<exists>x. lease_of d t = Some (w, x) \<and>
           abs_db d' = a_set_lease t (Some (w, lease_expiry tm dur)) (abs_db d)"
    and "n = 0 \<Longrightarrow> d' = d \<and> (\<nexists>x. lease_of d t = Some (w, x))"
proof -
  let ?upd = "\<lambda>l. if l_task_id l = t \<and> l_worker_id l = w
      then l\<lparr>l_expires_at := lease_expiry tm dur, l_updated_at := tm\<rparr> else l"
  have d': "d' = d\<lparr>lease_table := map ?upd (lease_table d)\<rparr>"
    and n: "n = length (filter (\<lambda>l. l_task_id l = t \<and> l_worker_id l = w) (lease_table d))"
    using assms(2) by (auto simp: sql_renew_lease_def)
  have ids: "map l_task_id (map ?upd ls) = map l_task_id ls" for ls by simp
  show "db_wf d'" using assms(1) ids [of "lease_table d"]
    by (auto simp: d' db_wf_def simp del: map_map)
  show "status_table d' = status_table d" by (simp add: d')
  have upd: "map_of (map (\<lambda>l. (l_task_id l, (l_worker_id l, l_expires_at l))) (map ?upd ls)) u =
     (case map_of (map (\<lambda>l. (l_task_id l, (l_worker_id l, l_expires_at l))) ls) u of
        None \<Rightarrow> None
      | Some (v, x) \<Rightarrow> Some (v, if u = t \<and> v = w then lease_expiry tm dur else x))" for ls u
    by (induction ls) auto
  show "d' = d \<and> (\<nexists>x. lease_of d t = Some (w, x))" if "n = 0"
  proof -
    have none: "\<not> (l_task_id l = t \<and> l_worker_id l = w)" if "l \<in> set (lease_table d)" for l
      using that \<open>n = 0\<close> by (auto simp: n filter_empty_conv)
    then have "map ?upd (lease_table d) = lease_table d" by (intro map_idI) auto
    then have "d' = d" by (cases d) (simp add: d')
    with none assms(1) show ?thesis by (auto simp: lease_of_Some)
  qed
  show "\<exists>x. lease_of d t = Some (w, x) \<and>
           abs_db d' = a_set_lease t (Some (w, lease_expiry tm dur)) (abs_db d)" if nz: "n \<noteq> 0"
  proof -
    obtain x where x: "lease_of d t = Some (w, x)"
      using nz assms(1) by (auto simp: n lease_of_Some filter_empty_conv)
    have "lease_of d' u = ((lease_of d)(t \<mapsto> (w, lease_expiry tm dur))) u" for u
      using x upd [of "lease_table d" u]
      by (auto simp: d' lease_of_def split: option.splits simp del: map_map)
    then have "lease_of d' = (lease_of d)(t \<mapsto> (w, lease_expiry tm dur))" by blast
    moreover have "history d' = history d" by (auto simp: d' fun_eq_iff intro: history_cong)
    ultimately have "abs_db d' = a_set_lease t (Some (w, lease_expiry tm dur)) (abs_db d)"
      by (simp add: abs_db_def a_set_lease_def max_of_def d')
    with x show ?thesis by blast
  qed
qed

section \<open>The helpers\<close>

text \<open>The effect of a helper that returns without error, from a well formed session.\<close>

lemma insertStatus_ok:
  assumes "insertStatus px t st who err s = (Inr u, s')" and wf: "pg_wf px s"
  shows "pg_wf px s'" and "abs_db (tables s') = a_append t [st] (abs_db (tables s))"
    and "sess s' = sess s" and "has_task (tables s) t"
    and "lease_table (tables s') = lease_table (tables s)"
    and "task_table (tables s') = task_table (tables s)"
proof -
  let ?new = "uuidv7 px (drawn s)"
  from assms(1) obtain s0 where s0: "core s0 = core (s\<lparr>drawn := Suc (drawn s)\<rparr>)"
    and ins: "map_sum id (Pair ()) (sql_insert_status ?new (now s0) t st (map_option int64_of_uint64 who)
        (if err \<noteq> '''' then Some err else None) (tables s0)) = Inr (u, tables s')"
    and dr: "drawn s' = Suc (drawn s)" and se: "sess s' = sess s"
    by (auto simp: insertStatus_def Let_def wrapE_Inr_iff dest!: db_exec_Inr)
  from s0 have "tables s0 = tables s" "now s0 = now s" by (auto dest: coreD)
  with ins have ins: "sql_insert_status ?new (now s) t st (map_option int64_of_uint64 who)
        (if err \<noteq> '''' then Some err else None) (tables s) = Inr (tables s')"
    by (auto simp: map_sum_def split: sum.splits)
  have rb: "rows_before (now s) ?new (tables s)" using wf by (simp add: pg_wf_def)
  show "abs_db (tables s') = a_append t [st] (abs_db (tables s))"
    by (rule insert_status_abs [OF ins rb])
  have "?new < uuidv7 px (drawn s')"
    using wf dr by (simp add: pg_wf_def strict_mono_def)
  then have "rows_before (now s') (uuidv7 px (drawn s')) (tables s')"
    using insert_status_rows_before [OF ins rb] se by (simp add: sess_def)
  then show "pg_wf px s'"
    using wf insert_status_frame(1,2) [OF ins] insert_status_fk [OF ins]
    by (simp add: pg_wf_def db_wf_def)
  show "sess s' = sess s" by (rule se)
  show ht: "has_task (tables s) t" using ins by (auto simp: sql_insert_status_def split: if_splits)
  show "lease_table (tables s') = lease_table (tables s)" "task_table (tables s') = task_table (tables s)"
    by (rule insert_status_frame [OF ins])+
qed

lemma latestStatus_ok:
  "latestStatus t s = (Inr st, s') \<Longrightarrow> core s' = core s \<and> sql_latest_status t (tables s) = Some st"
  by (auto simp: latestStatus_def wrapE_Inr_iff dest!: db_query_Inr dest: coreD split: option.splits)

lemma ensureLatestStatusIn_ok:
  "ensureLatestStatusIn t sts s = (Inr u, s') \<Longrightarrow>
     core s' = core s \<and> (\<exists>st \<in> set sts. sql_latest_status t (tables s) = Some st)"
  by (auto simp: ensureLatestStatusIn_def res_simps dest!: latestStatus_ok split: if_splits)

lemma ensureLeaseOwner_ok:
  "ensureLeaseOwner t w s = (Inr u, s') \<Longrightarrow>
     core s' = core s \<and> sql_check_lease_owner t (int64_of_uint64 w) (tables s)"
  by (auto simp: ensureLeaseOwner_def res_simps dest!: db_query_Inr dest: coreD split: if_splits)

lemma deleteLease_ok:
  assumes "deleteLease t w s = (Inr u, s')" and "pg_wf px s"
    and "lease_of (tables s) t = Some (int64_of_uint64 w, x)"
  shows "pg_wf px s'" and "abs_db (tables s') = a_set_lease t None (abs_db (tables s))"
    and "sess s' = sess s" and "tables s' = sql_delete_lease t (int64_of_uint64 w) (tables s)"
proof -
  from assms(1) obtain s0 where "core s0 = core s" and dr: "drawn s' = drawn s" and se: "sess s' = sess s"
    and t0: "tables s' = sql_delete_lease t (int64_of_uint64 w) (tables s0)"
    by (auto simp: deleteLease_def dest!: db_exec_Inr)
  then have t': "tables s' = sql_delete_lease t (int64_of_uint64 w) (tables s)"
    by (auto dest: coreD)
  show "sess s' = sess s" by (rule se)
  show "tables s' = sql_delete_lease t (int64_of_uint64 w) (tables s)" by (rule t')
  have db: "db_wf (tables s)" using assms(2) by (simp add: pg_wf_def)
  show "abs_db (tables s') = a_set_lease t None (abs_db (tables s))"
    unfolding t' by (rule delete_lease_abs [OF db assms(3)])
  show "pg_wf px s'"
    using assms(2) se dr
    by (auto simp: pg_wf_def t' sql_delete_lease_def db_wf_def rows_before_def sess_def distinct_map
        inj_on_def)
qed

section \<open>Transactions\<close>

text \<open>
  The outcomes of a transaction whose body, when it gets to its end, has the effect \<open>Q\<close>: a value
  or an error with the tables unchanged, or the whole effect, with the value or, when the reply to
  the commit was lost, an error.
\<close>

definition tx_result :: "(error + 'a) \<Rightarrow> db \<Rightarrow> db \<Rightarrow> ('a tx_end \<Rightarrow> db \<Rightarrow> bool) \<Rightarrow> bool" where
  "tx_result r d d' Q \<longleftrightarrow>
       (\<exists>err. r = Inl err) \<and> d' = d
     \<or> (\<exists>a d2. r = Inr a \<and> d' = d \<and> Q (NoCommit a) d2)
     \<or> (\<exists>a. (r = Inr a \<or> (\<exists>err. r = Inl err)) \<and> Q (Commit a) d')"

lemma in_tx_outcome:
  assumes run: "in_tx nm body s = (r, s')" and mv: "moves body" and wf: "pg_wf px s"
    and ok: "\<And>s1 e s2. core s1 = core s \<Longrightarrow> pg_wf px s1 \<Longrightarrow> body s1 = (Inr e, s2) \<Longrightarrow>
       pg_wf px s2 \<and> Q e (tables s2)"
  shows "pg_wf px s' \<and> sess s' = sess s \<and> drawn s \<le> drawn s' \<and> tx_result r (tables s) (tables s') Q"
proof -
  obtain b s1 where b: "wrapE (nm @ '': begin transaction'') (db_query (\<lambda>_. Inr ())) s = (b, s1)"
    by (rule prod.exhaust)
  have "s1 = snd (db_query (\<lambda>_. Inr ()) s)"
    using arg_cong [OF b, of snd] by simp
  then have c1: "core s1 = core s" by (simp only: db_query_core)
  note s1 = coreD [OF c1]
  have wf1: "pg_wf px s1" by (rule pg_wf_core [OF c1 wf])
  obtain r2 s2 where r2: "body s1 = (r2, s2)" by (rule prod.exhaust)
  note mv2 = movesD [OF mv r2]
  obtain f s3 where f: "next_fault s2 = (f, s3)" by (rule prod.exhaust)
  note s3 = coreD [OF next_fault_core [OF f]]
  have rolled: "\<And>s4. s' = s4\<lparr>tables := tables s1\<rparr> \<Longrightarrow> sess s4 = sess s2 \<Longrightarrow> drawn s4 = drawn s2 \<Longrightarrow>
      pg_wf px s'"
    using pg_wf_drawn [OF wf, of s'] s1 mv2 by simp
  show ?thesis
  proof (cases b)
    case (Inl e)
    with run b have "r = Inl e" and "s' = s1" by (simp_all add: in_tx_def)
    then show ?thesis using s1 wf1 by (simp add: tx_result_def)
  next
    case (Inr u)
    note run = run [unfolded in_tx_def b Inr prod.case sum.case r2]
    show ?thesis
    proof (cases r2)
      case (Inl e)
      with run have s': "s' = s2\<lparr>tables := tables s1\<rparr>" and "r = Inl e" by simp_all
      with s1 mv2 rolled [OF s'] show ?thesis by (simp add: tx_result_def)
    next
      case (Inr e)
      note e = ok [OF c1 wf1 r2 [unfolded Inr]]
      note run = run [unfolded Inr prod.case sum.case f]
      show ?thesis
      proof (cases e)
        case (NoCommit a)
        with run have s': "s' = s2\<lparr>tables := tables s1\<rparr>" and r: "r = Inr a" by simp_all
        have "tx_result r (tables s) (tables s') Q"
          using s1 e NoCommit by (auto simp: tx_result_def s' r)
        with s1 mv2 rolled [OF s'] show ?thesis by (simp add: s')
      next
        case (Commit a)
        have wf3: "pg_wf px s3" using e pg_wf_core [OF next_fault_core [OF f]] by blast
        show ?thesis
        proof (cases f)
          case NoFault
          with run Commit have "s' = s3" and "r = Inr a" by auto
          with wf3 s1 s3 mv2 e Commit show ?thesis by (simp add: tx_result_def)
        next
          case (Refused err)
          with run Commit have s': "s' = s3\<lparr>tables := tables s1\<rparr>" and "\<exists>err. r = Inl err" by auto
          with s1 s3 mv2 rolled [OF s'] show ?thesis by (simp add: tx_result_def)
        next
          case (ReplyLost err)
          with run Commit have "s' = s3" and "\<exists>err. r = Inl err" by auto
          with wf3 s1 s3 mv2 e Commit show ?thesis by (auto simp: tx_result_def)
        qed
      qed
    qed
  qed
qed

end
