(* ===== verification/StoreOps.thy ===== *)
theory StoreOps
  imports StoreRefine
begin

text \<open>
  The effect of each operation of \<open>PostgresStore\<close> on the abstraction of the tables, on every
  outcome, and the refinement: every operation is a sequence of steps of the task machine.
\<close>

section \<open>Single task operations\<close>

definition session_ok :: "pgx \<Rightarrow> pg \<Rightarrow> pg \<Rightarrow> bool" where
  "session_ok px s s' \<longleftrightarrow> pg_wf px s' \<and> sess s' = sess s \<and> drawn s \<le> drawn s'"

lemma MarkAssigned_effect:
  assumes "MarkAssigned st t w s = (r, s')" and "pg_wf (driver st) s"
  shows "session_ok (driver st) s s' \<and> tx_result r (tables s) (tables s') (\<lambda>e d. e = Commit () \<and>
     sql_latest_status t (tables s) = Some StateScheduling \<and>
     abs_db d = a_set_lease t (Some (int64_of_uint64 w, lease_expiry (now s) (leaseSeconds st)))
       (a_append t [StateAssigned] (abs_db (tables s))))"
  using assms(1) unfolding MarkAssigned_def session_ok_def conj_assoc
proof (rule in_tx_outcome, goal_cases)
  case (3 s1 e s2)
  then obtain sa sb u where la: "latestStatus t s1 = (Inr StateScheduling, sa)"
    and ins: "insertStatus (driver st) t StateAssigned (Some w) '''' sa = (Inr u, sb)"
    and ups: "db_exec (\<lambda>s. map_sum id (Pair ())
        (sql_upsert_lease (now s) t (int64_of_uint64 w) (leaseSeconds st) (tables s))) sb = (Inr (), s2)"
    and e: "e = Commit ()"
    by (auto simp: res_simps split: if_splits)
  note la = latestStatus_ok [OF la]
  note ins = insertStatus_ok [OF ins pg_wf_core [OF conjunct1 [OF la] 3(2)]]
  obtain s0 where s0: "core s0 = core sb" "drawn s2 = drawn sb" "sess s2 = sess sb"
    and up: "sql_upsert_lease (now s0) t (int64_of_uint64 w) (leaseSeconds st) (tables s0) = Inr (tables s2)"
    using db_exec_Inr [OF ups] by auto
  have "now s0 = now s" "tables s0 = tables sb"
    using coreD [OF 3(1)] coreD [OF conjunct1 [OF la]] ins(3) coreD [OF s0(1)] by (auto simp: sess_def)
  with up have up: "sql_upsert_lease (now s) t (int64_of_uint64 w) (leaseSeconds st) (tables sb) = Inr (tables s2)"
    by simp
  have db: "db_wf (tables sb)" using ins(1) by (simp add: pg_wf_def)
  note up' = upsert_lease_abs [OF db up is_int64_of_uint64]
  have "status_table (tables s2) = status_table (tables sb)"
    by (rule upsert_lease_frame(1) [OF up])
  then have "pg_wf (driver st) s2"
    using ins(1) up' s0 by (simp add: pg_wf_def rows_before_def sess_def)
  then show ?case
    using e la up' ins(2) coreD [OF 3(1)] coreD [OF conjunct1 [OF la]] by simp
qed (auto intro!: moves_rules assms)

text \<open>
  The operations a worker calls through the scheduler begin with the same two checks.
\<close>

lemma owner_checks:
  assumes "ensureLeaseOwner t w s1 = (Inr u, sa)" and "ensureLatestStatusIn t sts sa = (Inr v, sb)"
    and "pg_wf px s1"
  shows "core sb = core s1" and "pg_wf px sb"
    and "\<exists>x. lease_of (tables s1) t = Some (int64_of_uint64 w, x)"
    and "\<exists>st \<in> set sts. sql_latest_status t (tables s1) = Some st"
proof -
  note own = ensureLeaseOwner_ok [OF assms(1)]
  note sts = ensureLatestStatusIn_ok [OF assms(2)]
  show c: "core sb = core s1" using own sts by simp
  show "pg_wf px sb" by (rule pg_wf_core [OF c assms(3)])
  have "db_wf (tables s1)" using assms(3) by (simp add: pg_wf_def)
  then show "\<exists>x. lease_of (tables s1) t = Some (int64_of_uint64 w, x)"
    using own by (simp add: check_owner_iff)
  show "\<exists>st \<in> set sts. sql_latest_status t (tables s1) = Some st"
    using own sts coreD [of sa s1] by simp
qed

text \<open>Appending a state and then deleting the lease of its owner.\<close>

lemma append_and_release:
  assumes "insertStatus px t st who err s = (Inr u, sa)" and "deleteLease t w sa = (Inr v, sb)"
    and "pg_wf px s" and "lease_of (tables s) t = Some (int64_of_uint64 w, x)"
  shows "pg_wf px sb" and "sess sb = sess s" and "has_task (tables s) t"
    and "task_table (tables sb) = task_table (tables s)"
    and "abs_db (tables sb) = a_set_lease t None (a_append t [st] (abs_db (tables s)))"
    and "lease_table (tables sb) = filter (\<lambda>l. \<not> (l_task_id l = t \<and> l_worker_id l = int64_of_uint64 w))
           (lease_table (tables s))"
proof -
  note ins = insertStatus_ok [OF assms(1,3)]
  have "lease_of (tables sa) t = Some (int64_of_uint64 w, x)"
    using assms(4) ins(5) by (simp add: lease_of_def)
  note del = deleteLease_ok [OF assms(2) ins(1) this]
  show "pg_wf px sb" "sess sb = sess s" "has_task (tables s) t"
    using del ins by simp_all
  show "task_table (tables sb) = task_table (tables s)"
    using del(4) ins(6) by (simp add: sql_delete_lease_def)
  show "abs_db (tables sb) = a_set_lease t None (a_append t [st] (abs_db (tables s)))"
    using del(2) ins(2) by simp
  show "lease_table (tables sb) = filter (\<lambda>l. \<not> (l_task_id l = t \<and> l_worker_id l = int64_of_uint64 w))
           (lease_table (tables s))"
    using del(4) ins(5) by (simp add: sql_delete_lease_def)
qed

lemma MarkRunning_effect:
  assumes "MarkRunning st t w s = (r, s')" and "pg_wf (driver st) s"
  shows "session_ok (driver st) s s' \<and> tx_result r (tables s) (tables s') (\<lambda>e d. e = Commit () \<and>
     (\<exists>x. lease_of (tables s) t = Some (int64_of_uint64 w, x)) \<and>
     active (sql_latest_status t (tables s)) \<and>
     abs_db d = a_append t [StateRunning] (abs_db (tables s)))"
  using assms(1) unfolding MarkRunning_def session_ok_def conj_assoc
proof (rule in_tx_outcome, goal_cases)
  case (3 s1 e s2)
  then obtain sa sb u v y where ch: "ensureLeaseOwner t w s1 = (Inr u, sa)"
      "ensureLatestStatusIn t [StateAssigned, StateRunning] sa = (Inr v, sb)"
    and ins: "insertStatus (driver st) t StateRunning (Some w) '''' sb = (Inr y, s2)"
    and e: "e = Commit ()"
    by (auto simp: res_simps)
  note ch = owner_checks [OF ch 3(2)]
  note ins = insertStatus_ok [OF ins ch(2)]
  show ?case using ch ins e coreD [OF ch(1)] coreD [OF 3(1)] by (auto simp: active_def)
qed (auto intro!: moves_rules assms)

lemma MarkCompleted_effect:
  assumes "MarkCompleted st t w s = (r, s')" and "pg_wf (driver st) s"
  shows "session_ok (driver st) s s' \<and> tx_result r (tables s) (tables s') (\<lambda>e d. e = Commit () \<and>
     (\<exists>x. lease_of (tables s) t = Some (int64_of_uint64 w, x)) \<and>
     sql_latest_status t (tables s) = Some StateRunning \<and>
     abs_db d = a_set_lease t None (a_append t [StateCompleted] (abs_db (tables s))))"
  using assms(1) unfolding MarkCompleted_def session_ok_def conj_assoc
proof (rule in_tx_outcome, goal_cases)
  case (3 s1 e s2)
  then obtain sa sb sc u v y z where ch: "ensureLeaseOwner t w s1 = (Inr u, sa)"
      "ensureLatestStatusIn t [StateRunning] sa = (Inr v, sb)"
    and ins: "insertStatus (driver st) t StateCompleted (Some w) '''' sb = (Inr y, sc)"
    and del: "deleteLease t w sc = (Inr z, s2)" and e: "e = Commit ()"
    by (auto simp: res_simps)
  note ch = owner_checks [OF ch 3(2)]
  obtain x where x: "lease_of (tables s1) t = Some (int64_of_uint64 w, x)" using ch(3) by blast
  then have "lease_of (tables sb) t = Some (int64_of_uint64 w, x)" using coreD [OF ch(1)] by simp
  note rel = append_and_release [OF ins del ch(2) this]
  show ?case using ch x rel e coreD [OF ch(1)] coreD [OF 3(1)] by auto
qed (auto intro!: moves_rules assms)

lemma count_failed_ok:
  assumes "sql_count_failed t d = Some (c, m)" and "db_wf d"
  shows "c = failed_count d t" and "max_of d t = Some m"
proof -
  obtain r rs where r: "filter (\<lambda>r. t_id r = t) (task_table d) = r # rs"
    and c: "c = failed_count d t" "m = t_max_retries r"
    using assms(1) by (auto simp: sql_count_failed_def split: list.splits)
  have "r \<in> set (filter (\<lambda>r. t_id r = t) (task_table d))" using r by simp
  then have "r \<in> set (task_table d)" and "t_id r = t" by simp_all
  then show "c = failed_count d t" "max_of d t = Some m"
    using c max_of_Some [OF assms(2)] by auto
qed

lemma MarkFailed_effect:
  assumes "MarkFailed st t w err s = (r, s')" and "pg_wf (driver st) s"
  shows "session_ok (driver st) s s' \<and> tx_result r (tables s) (tables s') (\<lambda>e d. e = Commit () \<and>
     (\<exists>x. lease_of (tables s) t = Some (int64_of_uint64 w, x)) \<and>
     active (sql_latest_status t (tables s)) \<and>
     (\<exists>m. max_of (tables s) t = Some m \<and>
        abs_db d = a_set_lease t None (a_append t
          (if failed_count (tables s) t + 1 < m then [StateFailed, StateQueued] else [StateFailed])
          (abs_db (tables s)))))"
  using assms(1) unfolding MarkFailed_def session_ok_def conj_assoc
proof (rule in_tx_outcome, goal_cases)
  case (3 s1 e s2)
  then obtain sa sb sc sd se u v y z c m where ch: "ensureLeaseOwner t w s1 = (Inr u, sa)"
      "ensureLatestStatusIn t [StateAssigned, StateRunning] sa = (Inr v, sb)"
    and ins: "insertStatus (driver st) t StateFailed (Some w) err sb = (Inr y, sc)"
    and del: "deleteLease t w sc = (Inr z, sd)"
    and cnt: "db_query (\<lambda>s. case sql_count_failed t (tables s) of
                None \<Rightarrow> Inl (Failure ''no rows in result set'') | Some c \<Rightarrow> Inr c) sd = (Inr (c, m), se)"
    and fin: "if c < m then \<exists>x. insertStatus (driver st) t StateQueued None '''' se = (Inr x, s2) else s2 = se"
    and e: "e = Commit ()"
    by (auto simp: res_simps split: if_splits)
  note ch = owner_checks [OF ch 3(2)]
  obtain x where x: "lease_of (tables s1) t = Some (int64_of_uint64 w, x)" using ch(3) by blast
  then have "lease_of (tables sb) t = Some (int64_of_uint64 w, x)" using coreD [OF ch(1)] by simp
  note rel = append_and_release [OF ins del ch(2) this]
  have ce: "core se = core sd" and cm: "sql_count_failed t (tables sd) = Some (c, m)"
    using db_query_Inr [OF cnt] coreD [of se sd] by (auto split: option.splits)
  note wfe = pg_wf_core [OF ce rel(1)]
  have "c = failed_count (tables sd) t" and "max_of (tables sd) t = Some m"
    using count_failed_ok [OF cm] rel(1) by (simp_all add: pg_wf_def)
  moreover have "failed_count (tables sd) t = failed_count (tables sb) t + 1"
    using arg_cong [OF rel(5), of "\<lambda>a. a_failed a t"] by (simp add: amachine)
  ultimately have c: "c = failed_count (tables s) t + 1" and m: "max_of (tables s) t = Some m"
    using rel(4) coreD [OF ch(1)] coreD [OF 3(1)] by (simp_all add: max_of_def)
  have "pg_wf (driver st) s2 \<and> abs_db (tables s2) = a_set_lease t None (a_append t
          (if c < m then [StateFailed, StateQueued] else [StateFailed]) (abs_db (tables sb)))"
  proof (cases "c < m")
    case True
    with fin obtain q where "insertStatus (driver st) t StateQueued None '''' se = (Inr q, s2)" by auto
    note q = insertStatus_ok [OF this wfe]
    show ?thesis using True q rel(5) coreD [OF ce]
      by (auto simp: a_append_def a_set_lease_def fun_eq_iff)
  next
    case False
    with fin have "s2 = se" by simp
    with False wfe rel(5) coreD [OF ce] show ?thesis by simp
  qed
  then show ?case
    using ch x e c m coreD [OF ch(1)] coreD [OF 3(1)] by (auto simp: active_def)
qed (auto intro!: moves_rules assms split: prod.splits)

text \<open>
  \<open>MarkWorkerLost\<close> checks the status but not who holds the lease; with the lease held by the worker
  it names, the task goes back to the queue and the lease is gone.
\<close>

lemma MarkWorkerLost_effect:
  assumes "MarkWorkerLost st t w err s = (r, s')" and "pg_wf (driver st) s"
    and x: "lease_of (tables s) t = Some (int64_of_uint64 w, x)"
  shows "session_ok (driver st) s s' \<and> tx_result r (tables s) (tables s') (\<lambda>e d. e = Commit () \<and>
     active (sql_latest_status t (tables s)) \<and>
     abs_db d = a_set_lease t None (a_append t [StateWorkerLost, StateQueued] (abs_db (tables s))))"
  using assms(1) unfolding MarkWorkerLost_def session_ok_def conj_assoc
proof (rule in_tx_outcome, goal_cases)
  case (3 s1 e s2)
  then obtain sa sb sc u v y z where ch: "ensureLatestStatusIn t [StateAssigned, StateRunning] s1 = (Inr u, sa)"
    and ins: "insertStatus (driver st) t StateWorkerLost (Some w) err sa = (Inr v, sb)"
    and del: "deleteLease t w sb = (Inr y, sc)"
    and ins2: "insertStatus (driver st) t StateQueued None '''' sc = (Inr z, s2)" and e: "e = Commit ()"
    by (auto simp: res_simps)
  note ch = ensureLatestStatusIn_ok [OF ch]
  note ca = coreD [OF conjunct1 [OF ch]]
  have "lease_of (tables sa) t = Some (int64_of_uint64 w, x)" using x ca coreD [OF 3(1)] by simp
  note rel = append_and_release [OF ins del pg_wf_core [OF conjunct1 [OF ch] 3(2)] this]
  note q = insertStatus_ok [OF ins2 rel(1)]
  have "abs_db (tables s2) =
      a_set_lease t None (a_append t [StateWorkerLost, StateQueued] (abs_db (tables s)))"
    using q(2) rel(5) ca coreD [OF 3(1)] by (simp add: a_append_def a_set_lease_def fun_upd_same)
  then show ?case using q(1) e ch coreD [OF 3(1)] by (auto simp: active_def)
qed (auto intro!: moves_rules assms)

lemma RenewLease_effect:
  assumes "RenewLease st t w s = (r, s')" and wf: "pg_wf (driver st) s"
  shows "session_ok (driver st) s s'"
    and "tables s' = tables s \<or>
      (\<exists>x. lease_of (tables s) t = Some (int64_of_uint64 w, x) \<and>
       abs_db (tables s') = a_set_lease t (Some (int64_of_uint64 w, lease_expiry (now s) (leaseSeconds st)))
         (abs_db (tables s)))"
    and "r = Inr u \<Longrightarrow> (\<exists>x. lease_of (tables s) t = Some (int64_of_uint64 w, x)) \<and>
       abs_db (tables s') = a_set_lease t (Some (int64_of_uint64 w, lease_expiry (now s) (leaseSeconds st)))
         (abs_db (tables s))"
proof -
  obtain f s0 where f: "next_fault s = (f, s0)" by (rule prod.exhaust)
  note c0 = coreD [OF next_fault_core [OF f]]
  obtain n d where nd: "sql_renew_lease (now s) t (int64_of_uint64 w) (leaseSeconds st) (tables s) = (n, d)"
    by (rule prod.exhaust)
  have db: "db_wf (tables s)" using wf by (simp add: pg_wf_def)
  note ren = renew_lease_abs [OF db nd]
  have cases: "s' = s0 \<and> (\<exists>e. r = Inl e) \<or>
      s' = s0\<lparr>tables := d\<rparr> \<and> ((\<exists>e. r = Inl e) \<or> r = Inr () \<and> n \<noteq> 0)"
    using assms(1) f nd c0
    by (auto simp: RenewLease_def bindE_def wrapE_def db_exec_def throwE_def returnE_def
        split: fault.splits if_splits)
  have "rows_before (now s) (uuidv7 (driver st) (drawn s)) d"
    using wf ren(2) by (simp add: pg_wf_def rows_before_def)
  then show "session_ok (driver st) s s'"
    using cases wf c0 ren(1) by (auto simp: session_ok_def pg_wf_def sess_def)
  show "tables s' = tables s \<or>
      (\<exists>x. lease_of (tables s) t = Some (int64_of_uint64 w, x) \<and>
       abs_db (tables s') = a_set_lease t (Some (int64_of_uint64 w, lease_expiry (now s) (leaseSeconds st)))
         (abs_db (tables s)))"
    using cases ren(3,4) c0 by (cases "n = 0") auto
  show "(\<exists>x. lease_of (tables s) t = Some (int64_of_uint64 w, x)) \<and>
       abs_db (tables s') = a_set_lease t (Some (int64_of_uint64 w, lease_expiry (now s) (leaseSeconds st)))
         (abs_db (tables s))" if "r = Inr u"
    using cases ren(3) that by auto
qed

section \<open>Loops over tasks and leases\<close>

lemma distinct_map_sort_key: "distinct (map f (sort_key k xs)) = distinct (map f xs)"
  by (metis mset_eq_imp_distinct_iff mset_map mset_sort)

lemma bulk_Nil [simp]: "bulk {} sts a = a" "bulk_lose {} a = a"
  by (simp_all add: bulk_def bulk_lose_def)

lemma bulk_append_first: "t \<notin> T \<Longrightarrow> bulk T sts (a_append t sts a) = bulk (insert t T) sts a"
  by (auto simp: bulk_def a_append_def fun_eq_iff)

lemma insert_loop:
  assumes "forE (\<lambda>x. wrapE c (insertStatus px (f x) st who err)) xs s = (Inr u, s')"
    and "pg_wf px s" and "distinct (map f xs)"
  shows "pg_wf px s' \<and> sess s' = sess s \<and> lease_table (tables s') = lease_table (tables s) \<and>
     abs_db (tables s') = bulk (f ` set xs) [st] (abs_db (tables s))"
  using assms
proof (induction xs arbitrary: s)
  case Nil
  then show ?case by simp
next
  case (Cons x xs)
  then obtain v s1 where ins: "insertStatus px (f x) st who err s = (Inr v, s1)"
    and rest: "forE (\<lambda>x. wrapE c (insertStatus px (f x) st who err)) xs s1 = (Inr u, s')"
    unfolding forE_Cons_Inr wrapE_Inr_iff by blast
  note ins = insertStatus_ok [OF ins Cons.prems(2)]
  show ?case
    using Cons.IH [OF rest ins(1)] Cons.prems(3) ins by (simp add: bulk_append_first)
qed

lemma bulk_lose_first:
  "t \<notin> T \<Longrightarrow> bulk_lose T (a_set_lease t None (a_append t [StateWorkerLost, StateQueued] a)) =
     bulk_lose (insert t T) a"
  by (auto simp: bulk_lose_def bulk_def a_append_def a_set_lease_def fun_eq_iff)

lemma requeue_lease_ok:
  assumes "requeue_lease px nm reason l s = (Inr u, s')" and "pg_wf px s"
    and "lease_of (tables s) (fst l) = Some (int64_of_uint64 (snd l), x)"
  shows "pg_wf px s'" and "sess s' = sess s"
    and "abs_db (tables s') =
      a_set_lease (fst l) None (a_append (fst l) [StateWorkerLost, StateQueued] (abs_db (tables s)))"
    and "lease_table (tables s') = filter (\<lambda>r. l_task_id r \<noteq> fst l) (lease_table (tables s))"
proof -
  from assms(1) obtain sa sb v y where
      ins: "insertStatus px (fst l) StateWorkerLost (Some (snd l)) reason s = (Inr v, sa)"
    and del: "deleteLease (fst l) (snd l) sa = (Inr y, sb)"
    and ins2: "insertStatus px (fst l) StateQueued None '''' sb = (Inr u, s')"
    by (auto simp: requeue_lease_def res_simps)
  note rel = append_and_release [OF ins del assms(2,3)]
  note q = insertStatus_ok [OF ins2 rel(1)]
  show "pg_wf px s'" "sess s' = sess s" using q rel by simp_all
  show "abs_db (tables s') =
      a_set_lease (fst l) None (a_append (fst l) [StateWorkerLost, StateQueued] (abs_db (tables s)))"
    using q(2) rel(5) by (simp add: a_append_def a_set_lease_def)
  have db: "db_wf (tables s)" using assms(2) by (simp add: pg_wf_def)
  have "l_worker_id r = int64_of_uint64 (snd l)" if "r \<in> set (lease_table (tables s))" "l_task_id r = fst l" for r
    using that assms(3) lease_of_Some [OF db, of "l_task_id r" "l_worker_id r" "l_expires_at r"] by auto
  then show "lease_table (tables s') = filter (\<lambda>r. l_task_id r \<noteq> fst l) (lease_table (tables s))"
    using q(5) rel(6) by (auto intro: filter_cong)
qed

lemma requeue_loop:
  assumes "forE (requeue_lease px nm reason) ls s = (Inr u, s')"
    and "pg_wf px s" and "distinct (map fst ls)"
    and "\<And>l. l \<in> set ls \<Longrightarrow> \<exists>x. lease_of (tables s) (fst l) = Some (int64_of_uint64 (snd l), x)"
  shows "pg_wf px s' \<and> sess s' = sess s \<and>
     abs_db (tables s') = bulk_lose (fst ` set ls) (abs_db (tables s)) \<and>
     lease_table (tables s') = filter (\<lambda>r. l_task_id r \<notin> fst ` set ls) (lease_table (tables s))"
  using assms
proof (induction ls arbitrary: s)
  case Nil
  then show ?case by simp
next
  case (Cons l ls)
  then obtain v s1 where one: "requeue_lease px nm reason l s = (Inr v, s1)"
    and rest: "forE (requeue_lease px nm reason) ls s1 = (Inr u, s')"
    unfolding forE_Cons_Inr by blast
  obtain x where "lease_of (tables s) (fst l) = Some (int64_of_uint64 (snd l), x)"
    using Cons.prems(4) [of l] by auto
  note one = requeue_lease_ok [OF one Cons.prems(2) this]
  have "lease_of (tables s1) (fst k) = lease_of (tables s) (fst k)" if "k \<in> set ls" for k
  proof -
    have "fst k \<noteq> fst l" using that Cons.prems(3) by (auto simp: image_iff)
    then show ?thesis using arg_cong [OF one(3), of "\<lambda>a. a_lease a (fst k)"] by (simp add: amachine)
  qed
  then have "\<exists>x. lease_of (tables s1) (fst k) = Some (int64_of_uint64 (snd k), x)" if "k \<in> set ls" for k
    using that Cons.prems(4) [of k] by simp
  with Cons.IH [OF rest one(1)] Cons.prems(3) one show ?case
    by (auto simp: bulk_lose_first intro: filter_cong)
qed

section \<open>The operations on many tasks\<close>

lemma scan_task_ID: "scan_task px r = Inr t \<Longrightarrow> task_ID t = t_id r"
  by (auto simp: scan_task_def split: sum.splits)

lemma scan_tasks_IDs: "collectE (scan_task px) rows = Inr ts \<Longrightarrow> map task_ID ts = map t_id rows"
proof (induction rows arbitrary: ts)
  case Nil
  then show ?case by simp
next
  case (Cons r rows)
  then show ?case by (auto dest: scan_task_ID split: sum.splits)
qed

lemma claim_rows:
  assumes "sql_claim_queued locked n d = Inr rows"
  shows "r \<in> set rows \<Longrightarrow> r \<in> set (task_table d) \<and> claimable d r \<and> t_id r \<notin> set locked"
    and "db_wf d \<Longrightarrow> distinct (map t_id rows)"
    and "length rows \<le> nat n" and "0 \<le> n"
    and "sorted (map (\<lambda>r. (t_created_at r, t_id r)) rows)"
    and "length rows < nat n \<Longrightarrow> r \<in> set (task_table d) \<Longrightarrow> claimable d r \<Longrightarrow> t_id r \<notin> set locked \<Longrightarrow>
       r \<in> set rows"
proof -
  let ?sorted = "filter (\<lambda>r. t_id r \<notin> set locked)
      (sort_key (\<lambda>r. (t_created_at r, t_id r)) (filter (claimable d) (task_table d)))"
  have rows: "rows = take (nat n) ?sorted" and n: "0 \<le> n"
    using assms by (auto simp: sql_claim_queued_def split: if_splits)
  show "r \<in> set rows \<Longrightarrow> r \<in> set (task_table d) \<and> claimable d r \<and> t_id r \<notin> set locked"
    using set_take_subset [of "nat n" ?sorted] by (auto simp: rows)
  show "distinct (map t_id rows)" if "db_wf d"
  proof -
    have "distinct (map t_id (filter (claimable d) (task_table d)))"
      using that by (simp add: db_wf_def distinct_map_filter)
    then have "distinct (map t_id ?sorted)" by (simp add: distinct_map_sort_key distinct_map_filter)
    then show ?thesis by (simp add: rows take_map [symmetric])
  qed
  show "length rows \<le> nat n" by (simp add: rows)
  show "0 \<le> n" by (rule n)
  show "sorted (map (\<lambda>r. (t_created_at r, t_id r)) rows)"
    by (simp add: rows take_map [symmetric] sorted_wrt_take sorted_filter)
  show "r \<in> set rows" if "length rows < nat n" "r \<in> set (task_table d)" "claimable d r" "t_id r \<notin> set locked"
    using that by (auto simp: rows min_def split: if_splits)
qed

lemma ClaimQueued_effect:
  assumes "ClaimQueued st sid n s = (r, s')" and "pg_wf (driver st) s"
  shows "session_ok (driver st) s s' \<and> tx_result r (tables s) (tables s') (\<lambda>e d.
     \<exists>rows ts. sql_claim_queued (locked_tasks s) n (tables s) = Inr rows \<and>
       collectE (scan_task (driver st)) rows = Inr ts \<and>
       (if ts = [] then e = NoCommit []
        else e = Commit ts \<and> lease_table d = lease_table (tables s) \<and>
          abs_db d = bulk (task_ID ` set ts) [StateScheduling] (abs_db (tables s))))"
  using assms(1) unfolding ClaimQueued_def session_ok_def conj_assoc
proof (rule in_tx_outcome, goal_cases)
  case (3 s1 e s2)
  then obtain sa sb rows ts u where
      q: "db_query (\<lambda>s. sql_claim_queued (locked_tasks s) n (tables s)) s1 = (Inr rows, sa)"
    and scan: "collectE (scan_task (driver st)) rows = Inr ts"
    and err: "rows_err sa = (Inr u, sb)"
    and fin: "if ts = [] then e = NoCommit [] \<and> s2 = sb
      else (\<exists>v. forE (\<lambda>t. wrapE ''claim queued: mark scheduling''
          (insertStatus (driver st) (task_ID t) StateScheduling (Some sid) '''')) ts sb = (Inr v, s2)) \<and> e = Commit ts"
    by (auto simp: res_simps split: if_splits)
  have cb: "core sb = core s1"
    using db_query_Inr [OF q] db_query_Inr [OF err [unfolded rows_err_def]] by simp
  have rows: "sql_claim_queued (locked_tasks s) n (tables s) = Inr rows"
    using db_query_Inr [OF q] coreD [of sa s1] coreD [OF 3(1)] by simp
  note wfb = pg_wf_core [OF cb 3(2)]
  have "distinct (map task_ID ts)"
    using claim_rows(2) [OF rows] assms(2) scan_tasks_IDs [OF scan] by (simp add: pg_wf_def)
  note loop = insert_loop [OF _ wfb this]
  show ?case
  proof (cases "ts = []")
    case True
    with fin rows scan wfb show ?thesis by auto
  next
    case False
    with fin obtain v where "forE (\<lambda>t. wrapE ''claim queued: mark scheduling''
          (insertStatus (driver st) (task_ID t) StateScheduling (Some sid) '''')) ts sb = (Inr v, s2)"
      and "e = Commit ts" by auto
    with loop [OF this(1)] False rows scan coreD [OF cb] coreD [OF 3(1)] show ?thesis by auto
  qed
qed (auto intro!: moves_rules assms)

lemma recover_tx:
  assumes fin: "if ls = [] then e = NoCommit 0 \<and> s2 = sb
      else (\<exists>v. forE (requeue_lease px nm reason) ls sb = (Inr v, s2)) \<and> e = Commit (length ls)"
    and c: "core sb = core s" and wf: "pg_wf px s" and dist: "distinct (map fst ls)"
    and leased: "\<And>l. l \<in> set ls \<Longrightarrow> \<exists>x. lease_of (tables s) (fst l) = Some (int64_of_uint64 (snd l), x)"
  shows "pg_wf px s2 \<and> (if ls = [] then e = NoCommit 0
      else e = Commit (length ls) \<and> abs_db (tables s2) = bulk_lose (fst ` set ls) (abs_db (tables s)) \<and>
        lease_table (tables s2) = filter (\<lambda>r. l_task_id r \<notin> fst ` set ls) (lease_table (tables s)))"
proof (cases "ls = []")
  case True
  with fin pg_wf_core [OF c wf] show ?thesis by simp
next
  case False
  with fin obtain v where loop: "forE (requeue_lease px nm reason) ls sb = (Inr v, s2)"
    and "e = Commit (length ls)" by auto
  moreover have "\<exists>x. lease_of (tables sb) (fst l) = Some (int64_of_uint64 (snd l), x)" if "l \<in> set ls" for l
    using leased [OF that] coreD [OF c] by simp
  note requeue_loop [OF loop pg_wf_core [OF c wf] dist this]
  ultimately show ?thesis using False coreD [OF c] by simp
qed

definition pgx_values :: "pgx \<Rightarrow> bool" where
  "pgx_values px \<longleftrightarrow> (\<forall>i w. scan_uint64 px i = Inr w \<longrightarrow> uint w = i)"

lemma scan_expired_leases:
  assumes "collectE (scan_expired px) (sql_select_expired_leases locked tm d) = Inr ls"
    and "db_wf d" and "pgx_values px"
  shows "distinct (map fst ls)"
    and "(t, w) \<in> set ls \<longleftrightarrow> (\<exists>x. lease_of d t = Some (int64_of_uint64 w, x) \<and> x < tm) \<and> t \<notin> set locked"
proof -
  let ?rows = "sql_select_expired_leases locked tm d"
  have scan: "scan_expired px row = Inr l \<Longrightarrow> is_int64 (snd row) \<Longrightarrow>
      fst l = fst row \<and> int64_of_uint64 (snd l) = snd row" for row l
    using assms(3) int64_of_uint64_small by (auto simp: scan_expired_def pgx_values_def split: sum.splits)
  have rng: "is_int64 (snd row)" if "row \<in> set ?rows" for row
    using that assms(2) by (auto simp: sql_select_expired_leases_def db_wf_def)
  have m: "map (scan_expired px) ?rows = map Inr ls" using assms(1) by (simp add: collectE_Inr_map)
  have rows: "map (\<lambda>l. (fst l, int64_of_uint64 (snd l))) ls = ?rows"
  proof (rule nth_equalityI)
    show len: "length (map (\<lambda>l. (fst l, int64_of_uint64 (snd l))) ls) = length ?rows"
      using arg_cong [OF m, of length] by simp
    fix i assume i: "i < length (map (\<lambda>l. (fst l, int64_of_uint64 (snd l))) ls)"
    then have "scan_expired px (?rows ! i) = Inr (ls ! i)"
      using len arg_cong [OF m, of "\<lambda>zs. zs ! i"] by simp
    then show "map (\<lambda>l. (fst l, int64_of_uint64 (snd l))) ls ! i = ?rows ! i"
      using scan rng [of "?rows ! i"] i len by (simp add: prod_eq_iff)
  qed
  have "distinct (map fst ?rows)"
    using assms(2) by (simp add: sql_select_expired_leases_def comp_def distinct_map_filter
        distinct_map_sort_key db_wf_def)
  then show "distinct (map fst ls)" by (simp add: rows [symmetric] comp_def)
  have "(t, w) \<in> set ls \<longleftrightarrow> (t, int64_of_uint64 w) \<in> set ?rows"
    by (auto simp: rows [symmetric] image_iff) force
  moreover have "(t, i) \<in> set ?rows \<longleftrightarrow>
      (\<exists>l \<in> set (lease_table d). l_task_id l = t \<and> l_worker_id l = i \<and> l_expires_at l < tm) \<and>
      t \<notin> set locked" for i
    by (auto simp: sql_select_expired_leases_def)
  ultimately show "(t, w) \<in> set ls \<longleftrightarrow>
      (\<exists>x. lease_of d t = Some (int64_of_uint64 w, x) \<and> x < tm) \<and> t \<notin> set locked"
    by (simp add: lease_of_Some [OF assms(2)]) blast
qed

lemma RecoverExpiredLeases_effect:
  assumes "RecoverExpiredLeases st s = (r, s')" and wf: "pg_wf (driver st) s"
    and "pgx_values (driver st)"
  shows "session_ok (driver st) s s' \<and> tx_result r (tables s) (tables s') (\<lambda>e d.
     \<exists>ls. collectE (scan_expired (driver st))
            (sql_select_expired_leases (locked_leases s) (now s) (tables s)) = Inr ls \<and>
       (if ls = [] then e = NoCommit 0
        else e = Commit (length ls) \<and> abs_db d = bulk_lose (fst ` set ls) (abs_db (tables s)) \<and>
          lease_table d = filter (\<lambda>r. l_task_id r \<notin> fst ` set ls) (lease_table (tables s))))"
  using assms(1) unfolding RecoverExpiredLeases_def session_ok_def conj_assoc
proof (rule in_tx_outcome, goal_cases)
  case (3 s1 e s2)
  then obtain sa sb rows ls u where
      q: "db_query (\<lambda>s. Inr (sql_select_expired_leases (locked_leases s) (now s) (tables s))) s1 = (Inr rows, sa)"
    and scan: "collectE (scan_expired (driver st)) rows = Inr ls"
    and err: "rows_err sa = (Inr u, sb)"
    and fin: "if ls = [] then e = NoCommit 0 \<and> s2 = sb
      else (\<exists>v. forE (requeue_lease (driver st) ''recover expired leases'' ''lease expired'') ls sb = (Inr v, s2)) \<and>
         e = Commit (length ls)"
    by (auto simp: res_simps split: if_splits)
  have cb: "core sb = core s"
    using db_query_Inr [OF q] db_query_Inr [OF err [unfolded rows_err_def]] 3(1) by simp
  have rows: "rows = sql_select_expired_leases (locked_leases s) (now s) (tables s)"
    using db_query_Inr [OF q] coreD [of sa s1] coreD [OF 3(1)] by simp
  have db: "db_wf (tables s)" using wf by (simp add: pg_wf_def)
  note ls = scan_expired_leases [OF scan [unfolded rows] db assms(3)]
  have "\<exists>x. lease_of (tables s) (fst l) = Some (int64_of_uint64 (snd l), x)" if "l \<in> set ls" for l
    using that ls(2) [of "fst l" "snd l"] by auto
  from recover_tx [OF fin cb wf ls(1) this] scan rows show ?case by blast
qed (auto intro!: moves_rules assms)

definition dead_leases :: "(uint64, 'm) gomap \<Rightarrow> (uuid \<times> int) list \<Rightarrow> (uuid \<times> uint64) list" where
  "dead_leases alive rows =
     filter (\<lambda>l. map_of alive (snd l) = None) (map (\<lambda>(t, w). (t, uint64_of_int64 w)) rows)"

lemma dead_leases_iff:
  assumes "db_wf d"
  shows "distinct (map fst (dead_leases alive (sql_select_active_leases locked d)))"
    and "(t, w) \<in> set (dead_leases alive (sql_select_active_leases locked d)) \<longleftrightarrow>
      (\<exists>x. lease_of d t = Some (int64_of_uint64 w, x)) \<and> t \<notin> set locked \<and> map_of alive w = None"
proof -
  have "distinct (map fst (map (\<lambda>(t, w). (t, uint64_of_int64 w)) (sql_select_active_leases locked d)))"
    using assms by (simp add: sql_select_active_leases_def comp_def distinct_map_filter db_wf_def)
  then show "distinct (map fst (dead_leases alive (sql_select_active_leases locked d)))"
    unfolding dead_leases_def by (rule distinct_map_filter)
  have "uint64_of_int64 (l_worker_id l) = w \<longleftrightarrow> l_worker_id l = int64_of_uint64 w"
    if "l \<in> set (lease_table d)" for l
    using that assms int64_of_uint64_of_int64 by (fastforce simp: db_wf_def)
  then show "(t, w) \<in> set (dead_leases alive (sql_select_active_leases locked d)) \<longleftrightarrow>
      (\<exists>x. lease_of d t = Some (int64_of_uint64 w, x)) \<and> t \<notin> set locked \<and> map_of alive w = None"
    using assms by (fastforce simp: dead_leases_def sql_select_active_leases_def lease_of_Some image_iff)
qed

lemma RecoverDeadWorkerLeases_effect:
  assumes "RecoverDeadWorkerLeases st alive s = (r, s')" and wf: "pg_wf (driver st) s"
  shows "session_ok (driver st) s s' \<and> tx_result r (tables s) (tables s') (\<lambda>e d.
     \<exists>ls. ls = dead_leases alive (sql_select_active_leases (locked_leases s) (tables s)) \<and>
       (if ls = [] then e = NoCommit 0
        else e = Commit (length ls) \<and> abs_db d = bulk_lose (fst ` set ls) (abs_db (tables s)) \<and>
          lease_table d = filter (\<lambda>r. l_task_id r \<notin> fst ` set ls) (lease_table (tables s))))"
  using assms(1) unfolding RecoverDeadWorkerLeases_def session_ok_def conj_assoc
proof (rule in_tx_outcome, goal_cases)
  case (3 s1 e s2)
  then obtain sa sb rows ls u where
      q: "db_query (\<lambda>s. Inr (sql_select_active_leases (locked_leases s) (tables s))) s1 = (Inr rows, sa)"
    and ls: "ls = dead_leases alive rows"
    and err: "rows_err sa = (Inr u, sb)"
    and fin: "if ls = [] then e = NoCommit 0 \<and> s2 = sb
      else (\<exists>v. forE (requeue_lease (driver st) ''recover dead worker leases''
          ''worker not alive during leader recovery'') ls sb = (Inr v, s2)) \<and> e = Commit (length ls)"
    by (auto simp: res_simps Let_def dead_leases_def [symmetric] split: if_splits)
  have cb: "core sb = core s"
    using db_query_Inr [OF q] db_query_Inr [OF err [unfolded rows_err_def]] 3(1) by simp
  have rows: "rows = sql_select_active_leases (locked_leases s) (tables s)"
    using db_query_Inr [OF q] coreD [of sa s1] coreD [OF 3(1)] by simp
  have db: "db_wf (tables s)" using wf by (simp add: pg_wf_def)
  note dl = dead_leases_iff [OF db, where alive = alive and locked = "locked_leases s", folded rows, folded ls]
  have "\<exists>x. lease_of (tables s) (fst l) = Some (int64_of_uint64 (snd l), x)" if "l \<in> set ls" for l
    using that dl(2) [of "fst l" "snd l"] by auto
  from recover_tx [OF fin cb wf dl(1) this] ls rows show ?case by blast
qed (auto intro!: moves_rules assms simp: Let_def)

lemma RecoverStaleScheduling_effect:
  assumes "RecoverStaleScheduling st s = (r, s')" and wf: "pg_wf (driver st) s"
  shows "session_ok (driver st) s s' \<and> tx_result r (tables s) (tables s') (\<lambda>e d.
     \<exists>ts. ts = sql_select_stale_scheduling (locked_tasks s) (tables s) \<and>
       (if ts = [] then e = NoCommit 0
        else e = Commit (length ts) \<and> lease_table d = lease_table (tables s) \<and>
          abs_db d = bulk (set ts) [StateQueued] (abs_db (tables s))))"
  using assms(1) unfolding RecoverStaleScheduling_def session_ok_def conj_assoc
proof (rule in_tx_outcome, goal_cases)
  case (3 s1 e s2)
  then obtain sa sb ts u where
      q: "db_query (\<lambda>s. Inr (sql_select_stale_scheduling (locked_tasks s) (tables s))) s1 = (Inr ts, sa)"
    and err: "rows_err sa = (Inr u, sb)"
    and fin: "if ts = [] then e = NoCommit 0 \<and> s2 = sb
      else (\<exists>v. forE (\<lambda>t. wrapE ''recover stale scheduling: requeue''
                   (insertStatus (driver st) t StateQueued None ''recovered stale scheduling'')) ts sb = (Inr v, s2)) \<and>
         e = Commit (length ts)"
    by (auto simp: res_simps split: if_splits)
  have cb: "core sb = core s"
    using db_query_Inr [OF q] db_query_Inr [OF err [unfolded rows_err_def]] 3(1) by simp
  have ts: "ts = sql_select_stale_scheduling (locked_tasks s) (tables s)"
    using db_query_Inr [OF q] coreD [of sa s1] coreD [OF 3(1)] by simp
  note wfb = pg_wf_core [OF cb wf]
  have dist: "distinct (map (\<lambda>t. t) ts)"
    using wf by (simp add: ts sql_select_stale_scheduling_def pg_wf_def db_wf_def distinct_map_filter)
  show ?case
  proof (cases "ts = []")
    case True
    with fin ts wfb show ?thesis by auto
  next
    case False
    with fin obtain v where "forE (\<lambda>t. wrapE ''recover stale scheduling: requeue''
        (insertStatus (driver st) t StateQueued None ''recovered stale scheduling'')) ts sb = (Inr v, s2)"
      and "e = Commit (length ts)" by auto
    with insert_loop [OF this(1) wfb dist] False ts coreD [OF cb] show ?thesis by auto
  qed
qed (auto intro!: moves_rules assms)

end
