(* ===== verification/StoreSafety.thy ===== *)
theory StoreSafety
  imports StoreOps
begin

text \<open>
  The refinement theorem for the whole store, and its consequences for every state a system of
  schedulers, workers and clients can reach: one definition collects the operations, a step relation
  lets them run in any order, with any faults and locks, while the clock advances and clients submit
  tasks.
\<close>

section \<open>All operations\<close>

datatype store_op =
    OpClaimQueued uint64 int
  | OpRenewLease uuid uint64
  | OpMarkAssigned uuid uint64
  | OpMarkRunning uuid uint64
  | OpMarkCompleted uuid uint64
  | OpMarkFailed uuid uint64 string
  | OpMarkWorkerLost uuid uint64 string
  | OpRecoverExpired
  | OpRecoverDead "uint64 list"
  | OpRecoverStale

fun run_op :: "postgres_store \<Rightarrow> store_op \<Rightarrow> pg \<Rightarrow> pg" where
  "run_op st (OpClaimQueued sid n) s = snd (ClaimQueued st sid n s)"
| "run_op st (OpRenewLease t w) s = snd (RenewLease st t w s)"
| "run_op st (OpMarkAssigned t w) s = snd (MarkAssigned st t w s)"
| "run_op st (OpMarkRunning t w) s = snd (MarkRunning st t w s)"
| "run_op st (OpMarkCompleted t w) s = snd (MarkCompleted st t w s)"
| "run_op st (OpMarkFailed t w e) s = snd (MarkFailed st t w e s)"
| "run_op st (OpMarkWorkerLost t w e) s = snd (MarkWorkerLost st t w e s)"
| "run_op st OpRecoverExpired s = snd (RecoverExpiredLeases st s)"
| "run_op st (OpRecoverDead ids) s = snd (RecoverDeadWorkerLeases st (map (\<lambda>i. (i, ())) ids) s)"
| "run_op st OpRecoverStale s = snd (RecoverStaleScheduling st s)"

text \<open>
  \<open>MarkWorkerLost\<close> deletes the lease only when the worker it is given holds it; its caller names
  the worker it has just assigned the task to.
\<close>

fun op_ok :: "store_op \<Rightarrow> db \<Rightarrow> bool" where
  "op_ok (OpMarkWorkerLost t w e) d \<longleftrightarrow> (\<forall>v x. lease_of d t = Some (v, x) \<longrightarrow> v = int64_of_uint64 w)"
| "op_ok _ d \<longleftrightarrow> True"

lemma tx_result_steps:
  assumes "tx_result r d d' Q" and "\<And>a. Q (Commit a) d' \<Longrightarrow> astep\<^sup>*\<^sup>* (abs_db d) (abs_db d')"
  shows "astep\<^sup>*\<^sup>* (abs_db d) (abs_db d')"
  using assms by (auto simp: tx_result_def)

lemma claim_steps:
  assumes rows: "sql_claim_queued locked n d = Inr rows" and "db_wf d"
  shows "astep\<^sup>*\<^sup>* (abs_db d) (bulk (t_id ` set rows) [StateScheduling] (abs_db d))"
proof (rule asteps_bulk)
  fix t b
  assume "t \<in> t_id ` set rows" and b: "a_last b t = a_last (abs_db d) t"
    "a_failed b t = a_failed (abs_db d) t" "a_max b t = a_max (abs_db d) t"
  then obtain r where "t = t_id r" and "claimable d r" and "r \<in> set (task_table d)"
    using claim_rows(1) [OF rows] by auto
  with b max_of_Some [OF assms(2)] show "astep b (a_append t [StateScheduling] b)"
    by (intro astep.claim) (auto simp: claimable_def amachine)
qed simp

lemma stale_steps:
  assumes "ts = sql_select_stale_scheduling locked d"
  shows "astep\<^sup>*\<^sup>* (abs_db d) (bulk (set ts) [StateQueued] (abs_db d))"
proof (rule asteps_bulk)
  fix t b
  assume "t \<in> set ts" and "a_last b t = a_last (abs_db d) t" and "a_lease b t = a_lease (abs_db d) t"
  then show "astep b (a_append t [StateQueued] b)"
    by (intro astep.unschedule)
      (auto simp: assms sql_select_stale_scheduling_def amachine lease_of_None)
qed simp

lemma MarkWorkerLost_inactive:
  assumes "MarkWorkerLost st t w err s = (r, s')" and "pg_wf (driver st) s"
    and "\<not> active (sql_latest_status t (tables s))"
  shows "session_ok (driver st) s s' \<and> tx_result r (tables s) (tables s') (\<lambda>e d. False)"
  using assms(1) unfolding MarkWorkerLost_def session_ok_def conj_assoc
proof (rule in_tx_outcome, goal_cases)
  case (3 s1 e s2)
  then obtain sa u where "ensureLatestStatusIn t [StateAssigned, StateRunning] s1 = (Inr u, sa)"
    by (auto simp: res_simps)
  from ensureLatestStatusIn_ok [OF this] coreD [OF 3(1)] assms(3) show ?case
    by (auto simp: active_def)
qed (auto intro!: moves_rules assms)

theorem run_op_refines:
  assumes wf: "pg_wf (driver st) s" and px: "pgx_values (driver st)"
    and inv: "lease_inv (abs_db (tables s))" and ok: "op_ok op (tables s)"
  shows "session_ok (driver st) s (run_op st op s) \<and>
    astep\<^sup>*\<^sup>* (abs_db (tables s)) (abs_db (tables (run_op st op s)))"
proof (cases op)
  case (OpClaimQueued sid n)
  have db: "db_wf (tables s)" using wf by (simp add: pg_wf_def)
  note eff = ClaimQueued_effect [OF surjective_pairing wf, of sid n]
  show ?thesis unfolding OpClaimQueued run_op.simps
    by (rule conjI [OF conjunct1 [OF eff] tx_result_steps [OF conjunct2 [OF eff]]])
      (auto dest!: scan_tasks_IDs [THEN arg_cong, of _ _ _ set] claim_steps [OF _ db] split: if_splits)
next
  case (OpRenewLease t w)
  note eff = RenewLease_effect(1,2) [OF surjective_pairing wf, of t w]
  have "astep\<^sup>*\<^sup>* (abs_db (tables s)) (abs_db (tables (snd (RenewLease st t w s))))"
  proof -
    have "astep a (a_set_lease t (Some (v, x')) a)" if "a_lease a t = Some (v, x)" for a v x x'
      using that by (rule astep.renew)
    then show ?thesis using eff(2) by (auto simp: abs_db_proj)
  qed
  with eff(1) show ?thesis unfolding OpRenewLease run_op.simps by blast
next
  case (OpMarkAssigned t w)
  note eff = MarkAssigned_effect [OF surjective_pairing wf, of t w]
  show ?thesis unfolding OpMarkAssigned run_op.simps
    by (rule conjI [OF conjunct1 [OF eff] tx_result_steps [OF conjunct2 [OF eff]]])
      (auto simp: amachine intro!: r_into_rtranclp astep.assign)
next
  case (OpMarkRunning t w)
  note eff = MarkRunning_effect [OF surjective_pairing wf, of t w]
  show ?thesis unfolding OpMarkRunning run_op.simps
    by (rule conjI [OF conjunct1 [OF eff] tx_result_steps [OF conjunct2 [OF eff]]])
      (auto simp: amachine intro!: r_into_rtranclp astep.run)
next
  case (OpMarkCompleted t w)
  note eff = MarkCompleted_effect [OF surjective_pairing wf, of t w]
  show ?thesis unfolding OpMarkCompleted run_op.simps
    by (rule conjI [OF conjunct1 [OF eff] tx_result_steps [OF conjunct2 [OF eff]]])
      (auto simp: amachine intro!: r_into_rtranclp astep.complete)
next
  case (OpMarkFailed t w e)
  note eff = MarkFailed_effect [OF surjective_pairing wf, of t w e]
  show ?thesis unfolding OpMarkFailed run_op.simps
    by (rule conjI [OF conjunct1 [OF eff] tx_result_steps [OF conjunct2 [OF eff]]])
      (auto simp: amachine intro!: r_into_rtranclp astep.fail_requeue astep.fail_final)
next
  case (OpMarkWorkerLost t w e)
  show ?thesis
  proof (cases "lease_of (tables s) t")
    case None
    then have "\<not> active (sql_latest_status t (tables s))"
      using inv by (auto simp: lease_inv_def amachine)
    from MarkWorkerLost_inactive [OF surjective_pairing wf this, of w e] show ?thesis
      unfolding OpMarkWorkerLost run_op.simps by (auto simp: tx_result_def)
  next
    case (Some v)
    then obtain x where x: "lease_of (tables s) t = Some (int64_of_uint64 w, x)"
      using ok by (cases v) (auto simp: OpMarkWorkerLost)
    note eff = MarkWorkerLost_effect [OF surjective_pairing wf x, of e]
    show ?thesis unfolding OpMarkWorkerLost run_op.simps
      by (rule conjI [OF conjunct1 [OF eff] tx_result_steps [OF conjunct2 [OF eff]]])
        (use x in \<open>auto simp: amachine intro!: r_into_rtranclp astep.lose\<close>)
  qed
next
  case OpRecoverExpired
  have db: "db_wf (tables s)" using wf by (simp add: pg_wf_def)
  note eff = RecoverExpiredLeases_effect [OF surjective_pairing wf px]
  show ?thesis unfolding OpRecoverExpired run_op.simps
    by (rule conjI [OF conjunct1 [OF eff] tx_result_steps [OF conjunct2 [OF eff]]])
      (auto simp: amachine scan_expired_leases(2) [OF _ db px] intro!: asteps_bulk_lose split: if_splits)
next
  case (OpRecoverDead ids)
  have db: "db_wf (tables s)" using wf by (simp add: pg_wf_def)
  note eff = RecoverDeadWorkerLeases_effect [OF surjective_pairing wf, of "map (\<lambda>i. (i, ())) ids"]
  show ?thesis unfolding OpRecoverDead run_op.simps
    by (rule conjI [OF conjunct1 [OF eff] tx_result_steps [OF conjunct2 [OF eff]]])
      (auto simp: amachine dead_leases_iff(2) [OF db] intro!: asteps_bulk_lose split: if_splits)
next
  case OpRecoverStale
  note eff = RecoverStaleScheduling_effect [OF surjective_pairing wf]
  show ?thesis unfolding OpRecoverStale run_op.simps
    by (rule conjI [OF conjunct1 [OF eff] tx_result_steps [OF conjunct2 [OF eff]]])
      (auto intro: stale_steps split: if_splits)
qed

section \<open>Reachable stores\<close>

text \<open>
  Clients submit a task by inserting its row and a first status row \<open>QUEUED\<close> (README, step 5 of
  \<open>How to Run\<close>).
\<close>

definition submit :: "pgx \<Rightarrow> task_row \<Rightarrow> pg \<Rightarrow> pg" where
  "submit px r s =
     (if has_task (tables s) (t_id r) then s
      else s\<lparr>drawn := Suc (drawn s), tables := (tables s)\<lparr>task_table := task_table (tables s) @ [r],
        status_table := status_table (tables s) @ [\<lparr>s_id = uuidv7 px (drawn s), s_task_id = t_id r,
          s_status = StateQueued, s_assigned_to = None, s_error = None, s_created_at = now s\<rparr>]\<rparr>\<rparr>)"

definition empty_pg :: pg where
  "empty_pg = \<lparr>tables = \<lparr>task_table = [], status_table = [], lease_table = []\<rparr>, now = 0, drawn = 0,
     faults = [], locked_tasks = [], locked_leases = []\<rparr>"

inductive store_step :: "postgres_store \<Rightarrow> pg \<Rightarrow> pg \<Rightarrow> bool" for st where
  operate: "op_ok op (tables s) \<Longrightarrow> store_step st s (run_op st op s)"
| submitted: "store_step st s (submit (driver st) r s)"
| session: "now s \<le> tm \<Longrightarrow>
    store_step st s (s\<lparr>now := tm, faults := fs, locked_tasks := lt, locked_leases := ll\<rparr>)"

inductive_cases store_stepE: "store_step st s s'"

definition store_reachable :: "postgres_store \<Rightarrow> pg \<Rightarrow> bool" where
  "store_reachable st s \<longleftrightarrow> (store_step st)\<^sup>*\<^sup>* empty_pg s"

text \<open>The invariant of a store: well formed tables, and the invariants of the task machine.\<close>

definition store_inv :: "postgres_store \<Rightarrow> pg \<Rightarrow> bool" where
  "store_inv st s \<longleftrightarrow> pgx_values (driver st) \<and> pg_wf (driver st) s \<and> machine_inv (abs_db (tables s))"

lemma submit_row:
  assumes "pg_wf px s" and "\<not> has_task (tables s) (t_id r)"
  shows "pg_wf px (submit px r s)" and "abs_db (tables (submit px r s)) =
    (abs_db (tables s))\<lparr>a_hist := (history (tables s))(t_id r := [StateQueued]),
       a_max := (max_of (tables s))(t_id r \<mapsto> t_max_retries r)\<rparr>"
    and "history (tables s) (t_id r) = []"
proof -
  let ?d = "tables s" and ?d' = "tables (submit px r s)"
  let ?row = "\<lparr>s_id = uuidv7 px (drawn s), s_task_id = t_id r, s_status = StateQueued,
      s_assigned_to = None, s_error = None, s_created_at = now s\<rparr>"
  have tab: "status_table ?d' = status_table ?d @ [?row]" "task_table ?d' = task_table ?d @ [r]"
    "lease_table ?d' = lease_table ?d" "drawn (submit px r s) = Suc (drawn s)" "now (submit px r s) = now s"
    using assms(2) by (simp_all add: submit_def)
  have none: "s_task_id x \<noteq> t_id r" if "x \<in> set (status_table ?d)" for x
    using that assms by (auto simp: pg_wf_def db_wf_def)
  then show nil: "history ?d (t_id r) = []"
    by (simp add: history_def history_rows_def filter_empty_conv)
  have "history ?d' u = ((history ?d)(t_id r := [StateQueued])) u" for u
  proof -
    have "filter (\<lambda>x. s_task_id x = t_id r) (status_table ?d) = []"
      using none by (simp add: filter_empty_conv)
    then show ?thesis by (simp add: history_def history_rows_def tab)
  qed
  moreover have "max_of ?d' u = ((max_of ?d)(t_id r \<mapsto> t_max_retries r)) u" for u
  proof -
    have "max_of ?d (t_id r) = None"
      using assms(2) by (auto simp: max_of_def has_task_def map_of_eq_None_iff)
    then show ?thesis by (auto simp: max_of_def tab map_add_def split: option.splits)
  qed
  moreover have "lease_of ?d' = lease_of ?d" by (simp add: lease_of_def tab)
  ultimately show "abs_db ?d' = (abs_db ?d)\<lparr>a_hist := (history ?d)(t_id r := [StateQueued]),
       a_max := (max_of ?d)(t_id r \<mapsto> t_max_retries r)\<rparr>"
    by (auto simp: abs_db_def)
  have lt: "uuidv7 px (drawn s) < uuidv7 px (Suc (drawn s))"
    using assms(1) by (simp add: pg_wf_def strict_mono_def)
  have "s_id x < uuidv7 px (Suc (drawn s))" if "x \<in> set (status_table ?d)" for x
    using that assms(1) lt by (auto simp: pg_wf_def rows_before_def intro: less_trans)
  then show "pg_wf px (submit px r s)"
    using assms lt by (auto simp: pg_wf_def db_wf_def rows_before_def tab has_task_def)
qed

lemma submit_inv:
  assumes "pg_wf px s" and "machine_inv (abs_db (tables s))"
  shows "pg_wf px (submit px r s) \<and> machine_inv (abs_db (tables (submit px r s)))"
proof (cases "has_task (tables s) (t_id r)")
  case True
  with assms show ?thesis by (simp add: submit_def)
next
  case False
  note row = submit_row [OF assms(1) False]
  have "a_last (abs_db (tables s)) (t_id r) = None"
    using row(3) by (simp add: a_last_def amachine)
  then have "lease_of (tables s) (t_id r) = None"
    using assms(2) lease_inv_None [of "abs_db (tables s)" "t_id r"] by (simp add: machine_inv_def amachine)
  then have "machine_inv (abs_db (tables (submit px r s)))"
    using assms(2) unfolding row(2)
    by (auto simp: machine_inv_def lease_inv_def budget_inv_def lifecycle_inv_def in_flight_def
        a_last_def a_failed_def amachine)
  with row(1) show ?thesis by simp
qed

lemma store_inv_run_op:
  assumes "store_inv st s" and "op_ok op (tables s)"
  shows "store_inv st (run_op st op s)"
  using run_op_refines [of st s op] assms asteps_machine_inv
  by (auto simp: store_inv_def machine_inv_def session_ok_def)

lemma store_inv_empty: "strict_mono (uuidv7 (driver st)) \<Longrightarrow> pgx_values (driver st) \<Longrightarrow> store_inv st empty_pg"
  by (auto simp: store_inv_def empty_pg_def pg_wf_def db_wf_def rows_before_def machine_inv_def lease_inv_def
      budget_inv_def lifecycle_inv_def abs_db_def history_def history_rows_def lease_of_def max_of_def
      a_last_def)

lemma store_inv_step: "store_step st s s' \<Longrightarrow> store_inv st s \<Longrightarrow> store_inv st s'"
proof (induction rule: store_step.induct)
  case (submitted s r)
  then show ?case by (simp add: store_inv_def submit_inv)
next
  case (session s tm fs lt ll)
  then show ?case by (auto simp: store_inv_def pg_wf_def rows_before_def intro: order_trans)
qed (rule store_inv_run_op)

lemma store_inv_steps: "(store_step st)\<^sup>*\<^sup>* s s' \<Longrightarrow> store_inv st s \<Longrightarrow> store_inv st s'"
  by (induction rule: rtranclp_induct) (auto intro: store_inv_step)

lemma store_reachable_inv:
  "store_reachable st s \<Longrightarrow> strict_mono (uuidv7 (driver st)) \<Longrightarrow> pgx_values (driver st) \<Longrightarrow> store_inv st s"
  unfolding store_reachable_def by (rule store_inv_steps [OF _ store_inv_empty])

text \<open>What the task machine guarantees of a task that is in the table survives every step of the system.\<close>

lemma store_step_known:
  assumes "store_step st s s'" and "store_inv st s" and "history (tables s) t \<noteq> []"
  obtains a where "astep\<^sup>*\<^sup>* (abs_db (tables s)) a" "a_hist a t = history (tables s') t"
    "a_lease a t = lease_of (tables s') t" "a_max a t = max_of (tables s') t"
proof -
  from assms(1) show thesis
  proof cases
    case (operate op)
    then have "astep\<^sup>*\<^sup>* (abs_db (tables s)) (abs_db (tables s'))"
      using run_op_refines [of st s op] assms(2) by (simp add: store_inv_def machine_inv_def)
    then show ?thesis by (rule that) (simp_all add: amachine)
  next
    case (submitted r)
    show ?thesis
    proof (cases "has_task (tables s) (t_id r)")
      case True
      then have "s' = s" using submitted by (simp add: submit_def)
      with that [of "abs_db (tables s)"] show ?thesis by (simp add: amachine)
    next
      case False
      have wf: "pg_wf (driver st) s" using assms(2) by (simp add: store_inv_def)
      note row = submit_row(2,3) [OF wf False, folded submitted]
      then have "t \<noteq> t_id r" using assms(3) by auto
      with row(1) have "history (tables s') t = history (tables s) t" "lease_of (tables s') t = lease_of (tables s) t"
        "max_of (tables s') t = max_of (tables s) t"
        by (auto dest!: arg_cong [of _ _ a_hist] arg_cong [of _ _ a_lease] arg_cong [of _ _ a_max] simp: abs_db_def)
      with that [of "abs_db (tables s)"] show ?thesis by (simp add: amachine)
    qed
  next
    case (session tm fs lt ll)
    with that [of "abs_db (tables s)"] show ?thesis by (simp add: amachine)
  qed
qed

lemma store_steps_completed:
  assumes "(store_step st)\<^sup>*\<^sup>* s s'" and "store_inv st s" and "sql_latest_status t (tables s) = Some StateCompleted"
  shows "history (tables s') t = history (tables s) t \<and> lease_of (tables s') t = None"
  using assms
proof (induction rule: rtranclp_induct)
  case base
  then show ?case using lease_inv_None [of "abs_db (tables s)" t]
    by (simp add: store_inv_def machine_inv_def amachine)
next
  case (step s1 s2)
  then have h: "history (tables s1) t = history (tables s) t" by simp
  then have last: "sql_latest_status t (tables s1) = Some StateCompleted"
    using step.prems(2) by (simp only: sql_latest_status_history)
  then have ne: "history (tables s1) t \<noteq> []" by (auto simp: sql_latest_status_history split: if_splits)
  have inv: "store_inv st s1" using step by (blast intro: store_inv_steps)
  obtain a where "astep\<^sup>*\<^sup>* (abs_db (tables s1)) a" "a_hist a t = history (tables s2) t"
      "a_lease a t = lease_of (tables s2) t"
    by (rule store_step_known [OF step.hyps(2) inv ne])
  with asteps_completed [of "abs_db (tables s1)" a t] inv last h show ?case
    by (simp add: store_inv_def amachine)
qed

lemma store_steps_exhausted:
  assumes "(store_step st)\<^sup>*\<^sup>* s s'" and "store_inv st s" and "history (tables s) t \<noteq> []"
    and "max_of (tables s) t = Some m" and "m \<le> failed_count (tables s) t"
  shows "history (tables s') t = history (tables s) t \<and> max_of (tables s') t = Some m"
  using assms
proof (induction rule: rtranclp_induct)
  case base
  then show ?case by simp
next
  case (step s1 s2)
  then have h: "history (tables s1) t = history (tables s) t" "max_of (tables s1) t = Some m" by simp_all
  then have ne: "history (tables s1) t \<noteq> []" and f: "m \<le> failed_count (tables s1) t"
    using step.prems by (simp_all add: failed_count_history)
  have inv: "store_inv st s1" using step by (blast intro: store_inv_steps)
  obtain a where "astep\<^sup>*\<^sup>* (abs_db (tables s1)) a" "a_hist a t = history (tables s2) t"
      "a_max a t = max_of (tables s2) t"
    by (rule store_step_known [OF step.hyps(2) inv ne])
  with asteps_exhausted [of "abs_db (tables s1)" a t m] inv f h show ?case
    by (simp add: store_inv_def amachine)
qed

section \<open>A concrete driver and run\<close>

text \<open>
  A driver that behaves as \<open>pgx\<close> documents: a negative \<open>BIGINT\<close> does not fit a \<open>uint64\<close>, \<open>NULL\<close> does not
  fit a \<open>string\<close>; the ids are the numbers from one on.
\<close>

definition demo_px :: pgx where
  "demo_px = \<lparr>uuidv7 = Suc,
     scan_uint64 = (\<lambda>i. if 0 \<le> i \<and> i < 2 ^ 64 then Inr (word_of_int i) else Inl (Failure ''out of range for uint64'')),
     scan_text = (\<lambda>v. case v of None \<Rightarrow> Inl (Failure ''cannot scan NULL into *string'') | Some x \<Rightarrow> Inr x)\<rparr>"

definition demo_store :: postgres_store where
  "demo_store = NewPostgresStore 30000000000 demo_px"

definition demo_task :: "uuid \<Rightarrow> int \<Rightarrow> task_row" where
  "demo_task t m = \<lparr>t_id = t, t_executable = ''run.sh'', t_input_uri = Some ''in'', t_output_uri = Some ''out'',
     t_args = [], t_max_retries = m, t_created_at = 0\<rparr>"

lemma demo_store_ok [simp]: "strict_mono (uuidv7 (driver demo_store))" "pgx_values (driver demo_store)"
  by (auto simp: demo_store_def NewPostgresStore_def demo_px_def strict_mono_def pgx_values_def
      take_bit_int_eq_self uint_word_of_int_eq split: if_splits)

definition demo_run :: "store_op list \<Rightarrow> pg" where
  "demo_run ops = fold (run_op demo_store) ops (submit demo_px (demo_task 7 2) empty_pg)"

lemma demo_run_reachable:
  assumes "\<forall>op d. op \<in> set ops \<longrightarrow> op_ok op d"
  shows "store_reachable demo_store (demo_run ops)"
proof -
  have "(store_step demo_store)\<^sup>*\<^sup>* s (fold (run_op demo_store) ops s)" for s
    using assms
  proof (induction ops arbitrary: s)
    case Nil
    then show ?case by simp
  next
    case (Cons op ops)
    then have "store_step demo_store s (run_op demo_store op s)" by (intro store_step.operate) simp
    with Cons show ?case by (simp add: converse_rtranclp_into_rtranclp)
  qed
  moreover have "store_step demo_store empty_pg (submit demo_px (demo_task 7 2) empty_pg)"
    using store_step.submitted [of demo_store empty_pg] by (simp add: demo_store_def NewPostgresStore_def)
  ultimately show ?thesis
    unfolding store_reachable_def demo_run_def by (meson converse_rtranclp_into_rtranclp)
qed

definition to_running :: "store_op list" where
  "to_running = [OpClaimQueued 9 1, OpMarkAssigned 7 5, OpMarkRunning 7 5]"

lemma demo_running:
  "history (tables (demo_run to_running)) 7 = [StateQueued, StateScheduling, StateAssigned, StateRunning]"
  by code_simp

end
