(* ===== verification/Scheduler.thy ===== *)
theory Scheduler
  imports Strategy StoreSafety
begin

text \<open>
  The package \<open>scheduler\<close>: the engine's \<open>tick\<close> with its recovery, claiming and dispatching. The store,
  the dispatcher and the strategy are interfaces in the Go code; here they are records of functions
  over an arbitrary world \<open>'w\<close>, and what the scheduler relies on is stated by the locales
  \<open>task_store\<close>, \<open>dispatching\<close> and \<open>scheduling\<close>.
\<close>

section \<open>The interfaces\<close>

text \<open>\<open>task.Store\<close>\<close>

record 'w store_iface =
  st_ClaimQueued :: "uint64 \<Rightarrow> int \<Rightarrow> ('w, task list) res"
  st_ActiveLeases :: "('w, lease list) res"
  st_RenewLease :: "uuid \<Rightarrow> uint64 \<Rightarrow> ('w, unit) res"
  st_MarkAssigned :: "uuid \<Rightarrow> uint64 \<Rightarrow> ('w, unit) res"
  st_MarkRunning :: "uuid \<Rightarrow> uint64 \<Rightarrow> ('w, unit) res"
  st_MarkCompleted :: "uuid \<Rightarrow> uint64 \<Rightarrow> ('w, unit) res"
  st_MarkFailed :: "uuid \<Rightarrow> uint64 \<Rightarrow> string \<Rightarrow> ('w, unit) res"
  st_MarkWorkerLost :: "uuid \<Rightarrow> uint64 \<Rightarrow> string \<Rightarrow> ('w, unit) res"
  st_RecoverExpiredLeases :: "('w, nat) res"
  st_RecoverDeadWorkerLeases :: "(uint64, member) gomap \<Rightarrow> ('w, nat) res"
  st_RecoverStaleScheduling :: "('w, nat) res"

text \<open>The message \<open>AssignTaskRequest\<close> of \<open>proto/bully.proto\<close>.\<close>

record assign_request =
  req_TaskId :: string
  req_ExecutableUri :: string
  req_InputUri :: string
  req_OutputUri :: string
  req_Args :: "string list"

text \<open>
  What the engine calls: the store, \<open>TaskDispatcher.AssignTask\<close>, \<open>Strategy.Pick\<close>, and
  \<open>uuid.UUID.String\<close>.
\<close>

record ('w, 's) sched_deps =
  dep_store :: "'w store_iface"
  dep_AssignTask :: "string \<Rightarrow> assign_request \<Rightarrow> ('w, bool) res"
  dep_Pick :: "(uint64, member) gomap \<Rightarrow> 's \<Rightarrow> (member \<times> bool) \<times> 's"
  dep_uuid_String :: "uuid \<Rightarrow> string"

section \<open>The engine\<close>

record 's sched_engine =
  sch_selfID :: uint64
  sch_cfg :: scheduler_config
  sch_strategy :: 's
  didLeaderRecovery :: bool

definition NewScheduler :: "uint64 \<Rightarrow> scheduler_config \<Rightarrow> 's \<Rightarrow> 's sched_engine" where
  "NewScheduler selfID cfg strat =
     \<lparr>sch_selfID = selfID, sch_cfg = cfg, sch_strategy = strat, didLeaderRecovery = False\<rparr>"

definition aliveWorkers :: "uint64 \<Rightarrow> (uint64, member) gomap \<Rightarrow> (uint64, member) gomap" where
  "aliveWorkers selfID ms = filter (\<lambda>(i, m). i \<noteq> selfID) ms"

definition freeWorkers ::
  "'w store_iface \<Rightarrow> (uint64, member) gomap \<Rightarrow> ('w, (uint64, member) gomap) res" where
  "freeWorkers store alive =
     (if alive = [] then returnE alive
      else bindE (st_ActiveLeases store)
        (\<lambda>leases. returnE (fold (\<lambda>l free. gomap_delete (lease_WorkerID l) free) leases alive)))"

definition recoverOnLeadership :: "'w store_iface \<Rightarrow> (uint64, member) gomap \<Rightarrow> 'w \<Rightarrow> 'w" where
  "recoverOnLeadership store alive w =
     (let w1 = snd (st_RecoverStaleScheduling store w)
      in snd (st_RecoverDeadWorkerLeases store alive w1))"

definition assign_req :: "('w, 's) sched_deps \<Rightarrow> task \<Rightarrow> assign_request" where
  "assign_req deps t = \<lparr>req_TaskId = dep_uuid_String deps (task_ID t), req_ExecutableUri = task_Executable t,
     req_InputUri = task_InputURI t, req_OutputUri = task_OutputURI t, req_Args = task_Args t\<rparr>"

fun dispatchClaimedTasks ::
  "('w, 's) sched_deps \<Rightarrow> task list \<Rightarrow> (uint64, member) gomap \<Rightarrow> 's \<Rightarrow> 'w \<Rightarrow> 's \<times> 'w" where
  "dispatchClaimedTasks deps [] workers s w = (s, w)"
| "dispatchClaimedTasks deps (t # ts) workers s w =
     (case dep_Pick deps workers s of
        ((worker, ok), s1) \<Rightarrow>
          if \<not> ok then (s1, w)
          else case st_MarkAssigned (dep_store deps) (task_ID t) (member_ID worker) w of
            (Inl _, w1) \<Rightarrow> dispatchClaimedTasks deps ts workers s1 w1
          | (Inr _, w1) \<Rightarrow>
              (case dep_AssignTask deps (member_GRPCAddr worker) (assign_req deps t) w1 of
                 (Inl _, w2) \<Rightarrow>
                   dispatchClaimedTasks deps ts workers s1
                     (snd (st_MarkWorkerLost (dep_store deps) (task_ID t) (member_ID worker) ''dispatch failed'' w2))
               | (Inr _, w2) \<Rightarrow> dispatchClaimedTasks deps ts workers s1 w2))"

text \<open>
  \<open>tick\<close>; \<open>isLeader\<close> is what \<open>election.IsLeader()\<close> and \<open>ms\<close> what \<open>cluster.Members()\<close> returns.
\<close>

definition tick ::
  "('w, 's) sched_deps \<Rightarrow> bool \<Rightarrow> (uint64, member) gomap \<Rightarrow> 's sched_engine \<Rightarrow> 'w \<Rightarrow> 's sched_engine \<times> 'w" where
  "tick deps isLeader ms e w =
     (if \<not> isLeader then (e\<lparr>didLeaderRecovery := False\<rparr>, w)
      else let alive = aliveWorkers (sch_selfID e) ms in
      if alive = [] then (e, w)
      else let w1 = (if \<not> didLeaderRecovery e then recoverOnLeadership (dep_store deps) alive w else w);
               e1 = e\<lparr>didLeaderRecovery := True\<rparr>
      in case st_RecoverExpiredLeases (dep_store deps) w1 of
        (Inl _, w2) \<Rightarrow> (e1, w2)
      | (Inr _, w2) \<Rightarrow>
          (case freeWorkers (dep_store deps) alive w2 of
             (Inl _, w3) \<Rightarrow> (e1, w3)
           | (Inr workers, w3) \<Rightarrow>
               if workers = [] then (e1, w3)
               else let claimCount = min (BatchSize (sch_cfg e)) (int (length workers)) in
               if claimCount = 0 then (e1, w3)
               else case st_ClaimQueued (dep_store deps) (sch_selfID e) claimCount w3 of
                 (Inl _, w4) \<Rightarrow> (e1, w4)
               | (Inr tasks, w4) \<Rightarrow>
                   if tasks = [] then (e1, w4)
                   else case dispatchClaimedTasks deps tasks workers (sch_strategy e) w4 of
                     (s', w5) \<Rightarrow> (e1\<lparr>sch_strategy := s'\<rparr>, w5)))"

text \<open>
  The goroutine \<open>run\<close>: \<open>time.NewTicker\<close> panics on an interval that is not positive; otherwise the loop
  ticks, with what the election engine and the cluster answer at that moment, until its context is
  done.
\<close>

datatype sched_event = SchedTick bool "(uint64, member) gomap" | SchedDone
datatype sched_end = SchedPanicked | SchedWaiting | SchedReturned

fun sched_select ::
  "('w, 's) sched_deps \<Rightarrow> sched_event list \<Rightarrow> 's sched_engine \<Rightarrow> 'w \<Rightarrow> sched_end \<times> 's sched_engine \<times> 'w" where
  "sched_select deps [] e w = (SchedWaiting, e, w)"
| "sched_select deps (SchedTick isLeader ms # evs) e w =
     (case tick deps isLeader ms e w of (e', w') \<Rightarrow> sched_select deps evs e' w')"
| "sched_select deps (SchedDone # evs) e w = (SchedReturned, e, w)"

definition sched_run ::
  "('w, 's) sched_deps \<Rightarrow> sched_event list \<Rightarrow> 's sched_engine \<Rightarrow> 'w \<Rightarrow> sched_end \<times> 's sched_engine \<times> 'w" where
  "sched_run deps evs e w =
     (if PollInterval (sch_cfg e) \<le> 0 then (SchedPanicked, e, w) else sched_select deps evs e w)"

text \<open>What a tick sees: the cluster's map is well formed.\<close>

fun event_ok :: "sched_event \<Rightarrow> bool" where
  "event_ok (SchedTick b ms) \<longleftrightarrow> gomap_ok ms \<and> length ms < 2 ^ 64 \<and> (\<forall>i m. map_of ms i = Some m \<longrightarrow> member_ID m = i)"
| "event_ok SchedDone \<longleftrightarrow> True"

fun event_size :: "sched_event \<Rightarrow> nat" where
  "event_size (SchedTick b ms) = length ms"
| "event_size SchedDone = 0"

text \<open>The ways in which a leader's tick can end.\<close>

lemma tick_cases:
  assumes run: "tick deps isLeader ms e w = (e', w')"
    and lead: "isLeader" "aliveWorkers (sch_selfID e) ms \<noteq> []"
    and b: "st_RecoverExpiredLeases (dep_store deps)
      (if \<not> didLeaderRecovery e then recoverOnLeadership (dep_store deps) (aliveWorkers (sch_selfID e) ms) w else w)
      = (r2, w2)"
    and c: "freeWorkers (dep_store deps) (aliveWorkers (sch_selfID e) ms) w2 = (r3, w3)"
  obtains (stop) "w' = w2 \<or> w' = w3"
    | (claim) workers r4 w4 where "r3 = Inr workers" "workers \<noteq> []"
        "st_ClaimQueued (dep_store deps) (sch_selfID e)
           (min (BatchSize (sch_cfg e)) (int (length workers))) w3 = (r4, w4)" "w' = w4"
    | (assign) workers ts w4 s' where "r3 = Inr workers" "workers \<noteq> []"
        "st_ClaimQueued (dep_store deps) (sch_selfID e)
           (min (BatchSize (sch_cfg e)) (int (length workers))) w3 = (Inr ts, w4)"
        "dispatchClaimedTasks deps ts workers (sch_strategy e) w4 = (s', w')"
proof (cases r2)
  case (Inl x)
  with run lead b have "w' = w2" by (simp add: tick_def Let_def)
  with stop show ?thesis by blast
next
  case r2: (Inr u)
  show ?thesis
  proof (cases r3)
    case (Inl x)
    with run lead b c r2 have "w' = w3" by (simp add: tick_def Let_def)
    with stop show ?thesis by blast
  next
    case (Inr workers)
    let ?n = "min (BatchSize (sch_cfg e)) (int (length workers))"
    obtain r4 w4 where d: "st_ClaimQueued (dep_store deps) (sch_selfID e) ?n w3 = (r4, w4)"
      by (metis surj_pair)
    show ?thesis
    proof (cases "workers = [] \<or> ?n = 0")
      case True
      with run lead b c r2 Inr have "w' = w3" by (cases "workers = []") (simp_all add: tick_def Let_def)
      with stop show ?thesis by blast
    next
      case False
      note run = run [unfolded tick_def Let_def, simplified lead b c d r2 Inr prod.case sum.case]
      show ?thesis
      proof (cases "\<exists>ts. r4 = Inr ts \<and> ts \<noteq> []")
        case True
        then obtain ts s' w5 where ts: "r4 = Inr ts" "ts \<noteq> []"
          and dd: "dispatchClaimedTasks deps ts workers (sch_strategy e) w4 = (s', w5)"
          by (metis surj_pair)
        have "w' = w5" using run False ts dd d by simp
        with dd have "dispatchClaimedTasks deps ts workers (sch_strategy e) w4 = (s', w')" by simp
        with assign [OF Inr] False d ts(1) show ?thesis by blast
      next
        case no: False
        then have "w' = w4" using run False d by (cases r4) auto
        with claim [OF Inr _ d] False show ?thesis by simp
      qed
    qed
  qed
qed

section \<open>What the scheduler relies on\<close>

text \<open>
  \<open>holder w\<close> maps a task to the worker that holds its lease. Workers finish tasks and the clock
  advances at any time, so between two calls of the scheduler leases may disappear; none of the
  laws says that a lease is still there.
\<close>

locale task_store =
  fixes ops :: "'w store_iface"
    and inv :: "'w \<Rightarrow> bool"
    and holder :: "'w \<Rightarrow> uuid \<Rightarrow> uint64 option"
  assumes claim_law: "inv w \<Longrightarrow> st_ClaimQueued ops sid n w = (r, w') \<Longrightarrow>
      inv w' \<and> holder w' \<subseteq>\<^sub>m holder w \<and> (\<forall>ts. r = Inr ts \<longrightarrow> int (length ts) \<le> n)"
    and active_law: "inv w \<Longrightarrow> st_ActiveLeases ops w = (ra, w') \<Longrightarrow>
      inv w' \<and> holder w' \<subseteq>\<^sub>m holder w \<and> (\<forall>ls. ra = Inr ls \<longrightarrow> lease_WorkerID ` set ls = ran (holder w'))"
    and assign_law: "inv w \<Longrightarrow> st_MarkAssigned ops t k w = (ru, w') \<Longrightarrow>
      inv w' \<and> (holder w' \<subseteq>\<^sub>m (holder w)(t \<mapsto> k) \<or> holder w' \<subseteq>\<^sub>m holder w \<and> (\<exists>e. ru = Inl e))"
    and lost_law: "inv w \<Longrightarrow> holder w t \<in> {None, Some k} \<Longrightarrow> st_MarkWorkerLost ops t k msg w = (ru, w') \<Longrightarrow>
      inv w' \<and> holder w' \<subseteq>\<^sub>m holder w"
    and expired_law: "inv w \<Longrightarrow> st_RecoverExpiredLeases ops w = (rn, w') \<Longrightarrow>
      inv w' \<and> holder w' \<subseteq>\<^sub>m holder w"
    and dead_law: "inv w \<Longrightarrow> st_RecoverDeadWorkerLeases ops alive w = (rn, w') \<Longrightarrow>
      inv w' \<and> holder w' \<subseteq>\<^sub>m holder w"
    and stale_law: "inv w \<Longrightarrow> st_RecoverStaleScheduling ops w = (rn, w') \<Longrightarrow>
      inv w' \<and> holder w' \<subseteq>\<^sub>m holder w"

text \<open>No worker holds two leases.\<close>

definition exclusive :: "(uuid \<Rightarrow> uint64 option) \<Rightarrow> bool" where
  "exclusive h \<longleftrightarrow> (\<forall>t t' k. h t = Some k \<longrightarrow> h t' = Some k \<longrightarrow> t = t')"

lemma map_le_Some: "h' \<subseteq>\<^sub>m h \<Longrightarrow> h' t = Some k \<Longrightarrow> h t = Some k"
  by (metis domI map_le_def)

lemma exclusive_mono:
  assumes "exclusive h" and "h' \<subseteq>\<^sub>m h"
  shows "exclusive h'"
  using assms(1) map_le_Some [OF assms(2)] unfolding exclusive_def by blast

lemma ran_mono: "h' \<subseteq>\<^sub>m h \<Longrightarrow> ran h' \<subseteq> ran h"
  by (auto simp: ran_def dest: map_le_Some)

lemma disjoint_insert_le: "A \<inter> R = {} \<Longrightarrow> k \<notin> A \<Longrightarrow> R' \<subseteq> insert k R \<Longrightarrow> A \<inter> R' = {}"
  by auto

lemma exclusive_upd: "exclusive h \<Longrightarrow> k \<notin> ran h \<Longrightarrow> exclusive (h(t \<mapsto> k))"
  by (auto simp: exclusive_def ran_def)

lemma ran_upd_le: "ran (h(t \<mapsto> k)) \<subseteq> insert k (ran h)"
  by (auto simp: ran_def)

lemma lease_round_le:
  assumes "exclusive h" and "k \<notin> ran h" and "h' \<subseteq>\<^sub>m h(t \<mapsto> k) \<or> h' \<subseteq>\<^sub>m h"
  shows "exclusive h'" and "ran h' \<subseteq> insert k (ran h)"
  using assms(3) exclusive_mono [OF exclusive_upd [OF assms(1,2)]] exclusive_mono [OF assms(1)]
    ran_mono [of h' "h(t \<mapsto> k)"] ran_mono [of h' h] ran_upd_le [of h t k] by blast+

text \<open>
  Dispatching a task lets its worker run: it may renew, complete or fail what it holds before the
  call returns, with or without an error, but leases are only ever handed out by the scheduler.
\<close>

locale dispatching = task_store ops inv holder
  for ops :: "'w store_iface" and inv and holder +
  fixes send :: "string \<Rightarrow> assign_request \<Rightarrow> ('w, bool) res"
  assumes send_law: "inv w \<Longrightarrow> send addr req w = (rb, w') \<Longrightarrow> inv w' \<and> holder w' \<subseteq>\<^sub>m holder w"

locale scheduling = dispatching ops inv holder send + strategy pick steady
  for ops :: "'w store_iface" and inv and holder and send
    and pick :: "(uint64, member) gomap \<Rightarrow> 's \<Rightarrow> (member \<times> bool) \<times> 's" and steady +
  fixes deps :: "('w, 's) sched_deps"
  assumes deps: "dep_store deps = ops" "dep_AssignTask deps = send" "dep_Pick deps = pick"

begin

text \<open>
  The dispatch loop hands at most one task to each worker: the picks of one round are different,
  and none of them holds a lease when the round begins.
\<close>

lemma dispatch_exclusive:
  assumes "dispatchClaimedTasks deps ts workers s w = (s', w')"
    and "inv w" and "exclusive (holder w)"
    and "distinct (map member_ID (picks pick (length ts) workers s))"
    and "member_ID ` set (picks pick (length ts) workers s) \<inter> ran (holder w) = {}"
  shows "inv w' \<and> exclusive (holder w') \<and>
    ran (holder w') \<subseteq> ran (holder w) \<union> member_ID ` set (picks pick (length ts) workers s)"
  using assms
proof (induction ts arbitrary: s w)
  case Nil
  then show ?case by simp
next
  case (Cons t ts)
  obtain m ok s1 where pk: "pick workers s = ((m, ok), s1)" by (metis surj_pair)
  let ?k = "member_ID m" and ?rest = "picks pick (length ts) workers s1"
  have picks: "picks pick (length (t # ts)) workers s = m # ?rest" by (simp add: pk)
  have new: "?k \<notin> ran (holder w)" and rest: "distinct (map member_ID ?rest)"
      "?k \<notin> member_ID ` set ?rest" "member_ID ` set ?rest \<inter> ran (holder w) = {}"
    using Cons.prems(4,5) by (auto simp: pk)
  obtain ra w1 where as: "st_MarkAssigned ops (task_ID t) ?k w = (ra, w1)" by (metis surj_pair)
  note a = assign_law [OF Cons.prems(2) as]
  obtain rs w2 where sd: "send (member_GRPCAddr m) (assign_req deps t) w1 = (rs, w2)" by (metis surj_pair)
  note b = send_law [OF conjunct1 [OF a] sd]
  obtain rl w3 where lo: "st_MarkWorkerLost ops (task_ID t) ?k ''dispatch failed'' w2 = (rl, w3)"
    by (metis surj_pair)
  have step: ?case if v: "inv v \<and> exclusive (holder v) \<and> ran (holder v) \<subseteq> insert ?k (ran (holder w))"
      and run: "dispatchClaimedTasks deps ts workers s1 v = (s', w')" for v
  proof -
    have "ran (holder v) \<subseteq> insert ?k (ran (holder w))" using v by simp
    note disj = disjoint_insert_le [OF rest(3) rest(2) this]
    note ih = Cons.IH [OF run conjunct1 [OF v] conjunct1 [OF conjunct2 [OF v]] rest(1) disj]
    have "ran (holder v) \<subseteq> insert ?k (ran (holder w))" using v by simp
    with ih show ?thesis unfolding picks by auto
  qed
  show ?case
  proof (cases ok)
    case False
    then show ?thesis using Cons.prems pk deps by auto
  next
    case True
    show ?thesis
    proof (cases ra)
      case (Inl e)
      have "holder w1 \<subseteq>\<^sub>m (holder w)(task_ID t \<mapsto> ?k) \<or> holder w1 \<subseteq>\<^sub>m holder w" using a by blast
      from lease_round_le [OF Cons.prems(3) new this] a step [of w1] show ?thesis using Cons.prems(1) True pk as deps Inl by simp
    next
      case (Inr u)
      then have h1: "holder w1 \<subseteq>\<^sub>m (holder w)(task_ID t \<mapsto> ?k)" using a by auto
      note ex1 = lease_round_le(1) [OF Cons.prems(3) new disjI1 [OF h1]]
        and r1 = lease_round_le(2) [OF Cons.prems(3) new disjI1 [OF h1]]
      have ex2: "exclusive (holder w2)" and r2: "ran (holder w2) \<subseteq> insert ?k (ran (holder w))"
        using b ex1 r1 exclusive_mono ran_mono by blast+
      show ?thesis
      proof (cases rs)
        case (Inr v)
        with step [of w2] b ex2 r2 show ?thesis
          using Cons.prems(1) True pk as sd deps \<open>ra = Inr u\<close> by simp
      next
        case (Inl e)
        have "holder w2 (task_ID t) \<in> {None, Some ?k}"
          using map_le_Some [OF map_le_trans [OF conjunct2 [OF b] h1], of "task_ID t"]
          by (cases "holder w2 (task_ID t)") auto
        note l = lost_law [OF conjunct1 [OF b] this lo]
        then have "exclusive (holder w3)" and "ran (holder w3) \<subseteq> insert ?k (ran (holder w))"
          using ex2 r2 exclusive_mono ran_mono by blast+
        with step [of w3] l show ?thesis
          using Cons.prems(1) True pk as sd lo deps \<open>ra = Inr u\<close> Inl by simp
      qed
    qed
  qed
qed

lemma freeWorkers_spec:
  assumes "freeWorkers ops alive w = (r, w')" and "inv w" and "gomap_ok alive"
  shows "inv w' \<and> holder w' \<subseteq>\<^sub>m holder w \<and> (\<forall>free. r = Inr free \<longrightarrow>
     gomap_ok free \<and> length free \<le> length alive \<and>
     map_of free = (\<lambda>i. if i \<in> ran (holder w') then None else map_of alive i))"
proof (cases "alive = []")
  case True
  with assms show ?thesis by (auto simp: freeWorkers_def returnE_def)
next
  case False
  obtain ra w1 where a: "st_ActiveLeases ops w = (ra, w1)" by (metis surj_pair)
  note law = active_law [OF assms(2) a]
  have fold: "gomap_ok m \<Longrightarrow> gomap_ok (fold (\<lambda>l free. gomap_delete (lease_WorkerID l) free) ls m) \<and>
      length (fold (\<lambda>l free. gomap_delete (lease_WorkerID l) free) ls m) \<le> length m \<and>
      map_of (fold (\<lambda>l free. gomap_delete (lease_WorkerID l) free) ls m) =
        (\<lambda>i. if i \<in> lease_WorkerID ` set ls then None else map_of m i)"
    for ls :: "lease list" and m :: "(uint64, member) gomap"
  proof (induction ls arbitrary: m)
    case Nil
    then show ?case by simp
  next
    case (Cons l ls)
    have "length (gomap_delete (lease_WorkerID l) m) \<le> length m" by (simp add: gomap_delete_def)
    with Cons.IH [of "gomap_delete (lease_WorkerID l) m"] Cons.prems show ?case
      by (auto simp: fun_eq_iff)
  qed
  show ?thesis
  proof (cases ra)
    case (Inl e)
    with a law False assms(1) show ?thesis by (auto simp: freeWorkers_def bindE_def)
  next
    case (Inr ls)
    with a law False assms(1) fold [OF assms(3), of ls] show ?thesis
      by (auto simp: freeWorkers_def bindE_def returnE_def)
  qed
qed

lemma recover_phase:
  assumes "inv w"
  shows "inv (recoverOnLeadership ops alive w) \<and> holder (recoverOnLeadership ops alive w) \<subseteq>\<^sub>m holder w"
proof -
  obtain r2 w2 where b: "st_RecoverStaleScheduling ops w = (r2, w2)" by (metis surj_pair)
  obtain r3 w3 where c: "st_RecoverDeadWorkerLeases ops alive w2 = (r3, w3)" by (metis surj_pair)
  from stale_law [OF assms b] dead_law [OF _ c] b c show ?thesis
    by (auto simp: recoverOnLeadership_def intro: map_le_trans)
qed

text \<open>Claiming for the free workers and dispatching to them.\<close>

lemma assign_round:
  assumes claim: "st_ClaimQueued ops sid n w3 = (Inr ts, w4)" and n: "n \<le> int (length workers)"
    and run: "dispatchClaimedTasks deps ts workers s w4 = (s', w5)"
    and w3: "inv w3" "exclusive (holder w3)"
    and wk: "gomap_ok workers" "workers \<noteq> []" "length workers < 2 ^ 64" "steady s (length workers)"
    and ids: "\<And>i m. map_of workers i = Some m \<Longrightarrow> member_ID m = i \<and> i \<notin> ran (holder w3)"
  shows "inv w5 \<and> exclusive (holder w5) \<and> ran (holder w5) \<subseteq> ran (holder w3) \<union> dom (map_of workers)"
proof -
  note law = claim_law [OF w3(1) claim]
  have len: "length ts \<le> length workers" using law n by auto
  have ids': "\<forall>i m. map_of workers i = Some m \<longrightarrow> member_ID m = i" using ids by blast
  have "distinct (map member_ID (picks pick (length ts) workers s))"
    using steady_distinct [OF wk(1,3) len steady_mono [OF wk(4) len] ids'] .
  moreover have sub: "member_ID ` set (picks pick (length ts) workers s) \<subseteq> dom (map_of workers)"
    using picks_members [OF wk(1,2,3), of "length ts" s] ids' by (fastforce simp: ran_def)
  moreover have h4: "ran (holder w4) \<subseteq> ran (holder w3)" using law ran_mono by blast
  moreover have "dom (map_of workers) \<inter> ran (holder w4) = {}" using ids h4 by auto
  ultimately have disp: "inv w5 \<and> exclusive (holder w5) \<and>
      ran (holder w5) \<subseteq> ran (holder w4) \<union> member_ID ` set (picks pick (length ts) workers s)"
    using law w3(2) exclusive_mono by (intro dispatch_exclusive [OF run]) auto
  then have "ran (holder w5) \<subseteq> ran (holder w3) \<union> dom (map_of workers)"
    using Un_mono [OF h4 sub] by (meson subset_trans)
  with disp show ?thesis by simp
qed

text \<open>
  One tick keeps the invariant of the store and the exclusiveness of the leases, and hands new
  leases to alive members other than the leader only.
\<close>

definition tick_post :: "(uint64, member) gomap \<Rightarrow> uint64 \<Rightarrow> 'w \<Rightarrow> 'w \<Rightarrow> bool" where
  "tick_post ms self w w' \<longleftrightarrow> inv w' \<and> exclusive (holder w') \<and>
     ran (holder w') \<subseteq> ran (holder w) \<union> (fst ` set ms - {self})"

lemma tick_post_le:
  "exclusive (holder w) \<Longrightarrow> inv w' \<Longrightarrow> holder w' \<subseteq>\<^sub>m holder w \<Longrightarrow> tick_post ms self w w'"
  using exclusive_mono ran_mono unfolding tick_post_def by blast

lemma tick_exclusive:
  assumes run: "tick deps isLeader ms e w = (e', w')" and w: "inv w" "exclusive (holder w)"
    and ms: "gomap_ok ms" "length ms < 2 ^ 64" "\<forall>i m. map_of ms i = Some m \<longrightarrow> member_ID m = i"
    and steady: "steady (sch_strategy e) (length ms)"
  shows "tick_post ms (sch_selfID e) w w'"
proof (cases "isLeader \<and> aliveWorkers (sch_selfID e) ms \<noteq> []")
  case False
  with run have "w' = w" by (cases isLeader) (simp_all add: tick_def)
  with w show ?thesis by (simp add: tick_post_le)
next
  case True
  let ?alive = "aliveWorkers (sch_selfID e) ms"
  define w1 where "w1 = (if \<not> didLeaderRecovery e then recoverOnLeadership ops ?alive w else w)"
  have w1: "inv w1 \<and> holder w1 \<subseteq>\<^sub>m holder w" using recover_phase [OF w(1)] w by (simp add: w1_def)
  have alive: "gomap_ok ?alive" "length ?alive \<le> length ms"
    and alive_of: "map_of ?alive i = (if i = sch_selfID e then None else map_of ms i)" for i
    using ms(1) by (auto simp: aliveWorkers_def map_of_filter_key)
  obtain r2 w2 where b: "st_RecoverExpiredLeases ops w1 = (r2, w2)" by (metis surj_pair)
  have w2: "inv w2" "holder w2 \<subseteq>\<^sub>m holder w" using expired_law [OF _ b] w1 map_le_trans by blast+
  obtain r3 w3 where c: "freeWorkers ops ?alive w2 = (r3, w3)" by (metis surj_pair)
  note free = freeWorkers_spec [OF c w2(1) alive(1)]
  have w3: "inv w3" "holder w3 \<subseteq>\<^sub>m holder w" using free w2 map_le_trans by blast+
  from True have lead: "isLeader" "?alive \<noteq> []" by simp_all
  note b' = b [unfolded w1_def, folded deps(1)] and c' = c [folded deps(1)]
  show ?thesis
  proof (cases rule: tick_cases [OF run lead b' c', unfolded deps, case_names stop claim assign])
    case stop
    with w w2 w3 show ?thesis by (auto intro: tick_post_le)
  next
    case (claim workers r4 w4)
    with claim_law [OF w3(1) claim(3)] w w3 show ?thesis by (blast intro: tick_post_le map_le_trans)
  next
    case (assign workers ts w4 s')
    have wk: "gomap_ok workers" "length workers \<le> length ms" using free assign(1) alive(2) by auto
    have of: "map_of workers i = Some m \<Longrightarrow> i \<notin> ran (holder w3) \<and> i \<noteq> sch_selfID e \<and> map_of ms i = Some m" for i m
      using free assign(1) alive_of [of i] by (auto split: if_splits)
    have ids: "map_of workers i = Some m \<Longrightarrow> member_ID m = i \<and> i \<notin> ran (holder w3)" for i m
      using of [of i m] ms(3) by simp
    have "length workers < 2 ^ 64" using wk(2) ms(2) by simp
    note round = assign_round [OF assign(3) _ assign(4) w3(1) exclusive_mono [OF w(2) w3(2)] wk(1) assign(2) this
        steady_mono [OF steady wk(2)] ids]
    moreover have "dom (map_of workers) \<subseteq> fst ` set ms - {sch_selfID e}"
      using of by (force dest: map_of_SomeD)
    ultimately show ?thesis using ran_mono [OF w3(2)] unfolding tick_post_def
      by (meson Un_mono min.cobounded2 order_trans)
  qed
qed

text \<open>The strategy after a tick: at most as many picks as there are members have been made.\<close>

lemma dispatch_steady:
  assumes "dispatchClaimedTasks deps ts workers s w = (s', w')" and "steady s (length ts + k)"
  shows "steady s' k"
  using assms
proof (induction ts arbitrary: s w)
  case Nil
  then show ?case by simp
next
  case (Cons t ts)
  obtain m ok s1 where pk: "pick workers s = ((m, ok), s1)" by (metis surj_pair)
  have s1: "steady s1 (length ts + k)" using steady_Suc [of s "length ts + k" workers] Cons.prems(2) pk by simp
  have "steady s1 k" using steady_mono [OF s1] by simp
  with Cons.IH [OF _ s1] Cons.prems(1) pk deps show ?case by (auto split: if_splits prod.splits sum.splits)
qed

lemma tick_engine:
  assumes "tick deps isLeader ms e w = (e', w')" and "inv w" and "exclusive (holder w)" and "gomap_ok ms"
    and "steady (sch_strategy e) (length ms + k)"
  shows "steady (sch_strategy e') k \<and> sch_selfID e' = sch_selfID e \<and> sch_cfg e' = sch_cfg e"
proof -
  let ?alive = "aliveWorkers (sch_selfID e) ms"
  define w1 where "w1 = (if \<not> didLeaderRecovery e then recoverOnLeadership ops ?alive w else w)"
  have same: "steady (sch_strategy e) k" using steady_mono [OF assms(5)] by simp
  obtain r2 w2 where b: "st_RecoverExpiredLeases ops w1 = (r2, w2)" by (metis surj_pair)
  obtain r3 w3 where c: "freeWorkers ops ?alive w2 = (r3, w3)" by (metis surj_pair)
  have "inv w1" using recover_phase [OF assms(2)] assms(2) by (simp add: w1_def)
  then have w2: "inv w2" using expired_law [OF _ b] by blast
  have alive: "gomap_ok ?alive" "length ?alive \<le> length ms" using assms(4) by (auto simp: aliveWorkers_def)
  note free = freeWorkers_spec [OF c w2 alive(1)]
  show ?thesis
  proof (cases "isLeader \<and> ?alive \<noteq> []")
    case False
    with assms(1) same show ?thesis by (cases isLeader) (auto simp: tick_def)
  next
    case True
    note run = assms(1) [unfolded tick_def Let_def deps, folded w1_def, unfolded b c prod.case]
    show ?thesis
    proof (cases "\<exists>workers. r3 = Inr workers \<and> workers \<noteq> []")
      case False
      then show ?thesis using run True same by (auto split: sum.splits if_splits)
    next
      case wk: True
      then obtain workers where r3: "r3 = Inr workers" "workers \<noteq> []" by blast
      let ?n = "min (BatchSize (sch_cfg e)) (int (length workers))"
      obtain r4 w4 where d: "st_ClaimQueued ops (sch_selfID e) ?n w3 = (r4, w4)" by (metis surj_pair)
      have "inv w3" and len: "length workers \<le> length ms" using free r3 alive(2) by auto
      have "steady s' k" if "r4 = Inr ts" "dispatchClaimedTasks deps ts workers (sch_strategy e) w4 = (s', w5)" for ts s' w5
      proof (rule dispatch_steady [OF that(2)])
        have "length ts \<le> length workers" using claim_law [OF \<open>inv w3\<close> d] that(1) by auto
        then show "steady (sch_strategy e) (length ts + k)" using steady_mono [OF assms(5)] len by simp
      qed
      then show ?thesis using run True same r3 d by (auto split: sum.splits if_splits prod.splits)
    qed
  qed
qed

text \<open>All the ticks of a run.\<close>

lemma select_exclusive:
  assumes "sched_select deps evs e w = (r, e', w')" and "inv w" and "exclusive (holder w)"
    and "\<forall>ev \<in> set evs. event_ok ev" and "steady (sch_strategy e) (sum_list (map event_size evs))"
  shows "inv w' \<and> exclusive (holder w')"
  using assms
proof (induction evs arbitrary: e w)
  case (Cons ev evs)
  show ?case
  proof (cases ev)
    case (SchedTick b ms)
    let ?k = "sum_list (map event_size evs)"
    obtain e1 w1 where tk: "tick deps b ms e w = (e1, w1)" by (metis surj_pair)
    have ok: "gomap_ok ms" "length ms < 2 ^ 64" "\<forall>i m. map_of ms i = Some m \<longrightarrow> member_ID m = i"
      and st: "steady (sch_strategy e) (length ms + ?k)"
      using Cons.prems(4,5) SchedTick by auto
    have "tick_post ms (sch_selfID e) w w1"
      using tick_exclusive [OF tk Cons.prems(2,3) ok] steady_mono [OF st] by simp
    then have "inv w1" "exclusive (holder w1)" by (simp_all add: tick_post_def)
    moreover have "steady (sch_strategy e1) ?k" using tick_engine [OF tk Cons.prems(2,3) ok(1) st] by simp
    ultimately show ?thesis using Cons.IH [of e1 w1] Cons.prems(1,4) SchedTick tk by simp
  qed (use Cons.prems in simp)
qed simp

end

end
