(* ===== verification/Server.thy ===== *)
theory Server
  imports Worker Scheduler
begin

text \<open>
  The package \<open>server\<close>: the gRPC handlers of the scheduler and of the worker, and the clients that call
  them. The handlers of the election service are in the election theories. \<open>uuid.Parse\<close> and the gRPC
  library are parameters.
\<close>

section \<open>The scheduler's service\<close>

text \<open>What the handlers take from the library \<open>uuid\<close>.\<close>

record uuid_lib =
  uuid_Parse :: "string \<Rightarrow> error + uuid"
  uuid_String :: "uuid \<Rightarrow> string"

definition invalid_task_id :: error where
  "invalid_task_id = StatusError ''InvalidArgument'' ''invalid task_id''"

definition invalid_outcome :: error where
  "invalid_outcome = StatusError ''InvalidArgument'' ''invalid outcome''"

text \<open>\<open>status.Error(codes.Internal, err.Error())\<close>\<close>

definition internalE :: "(uuid \<Rightarrow> string) \<Rightarrow> ('w, 'a) res \<Rightarrow> ('w, 'a) res" where
  "internalE show_uuid m w =
     (case m w of
        (Inl e, w') \<Rightarrow> (Inl (StatusError ''Internal'' (error_text show_uuid e)), w')
      | (Inr a, w') \<Rightarrow> (Inr a, w'))"

definition server_ReportResult :: "uuid_lib \<Rightarrow> 'w store_iface \<Rightarrow> report_request \<Rightarrow> ('w, unit) res" where
  "server_ReportResult lib store req =
     (case uuid_Parse lib (rr_TaskId req) of
        Inl _ \<Rightarrow> throwE invalid_task_id
      | Inr taskID \<Rightarrow>
          if rr_Outcome req = SUCCESS
          then internalE (uuid_String lib) (st_MarkCompleted store taskID (rr_WorkerId req))
          else if rr_Outcome req = FAILED
          then internalE (uuid_String lib) (st_MarkFailed store taskID (rr_WorkerId req) (rr_Error req))
          else throwE invalid_outcome)"

definition server_RenewLease :: "uuid_lib \<Rightarrow> 'w store_iface \<Rightarrow> renew_request \<Rightarrow> ('w, unit) res" where
  "server_RenewLease lib store req =
     (case uuid_Parse lib (rn_TaskId req) of
        Inl _ \<Rightarrow> throwE invalid_task_id
      | Inr taskID \<Rightarrow> internalE (uuid_String lib) (st_RenewLease store taskID (rn_WorkerId req)))"

definition server_MarkRunning :: "uuid_lib \<Rightarrow> 'w store_iface \<Rightarrow> running_request \<Rightarrow> ('w, unit) res" where
  "server_MarkRunning lib store req =
     (case uuid_Parse lib (mr_TaskId req) of
        Inl _ \<Rightarrow> throwE invalid_task_id
      | Inr taskID \<Rightarrow> internalE (uuid_String lib) (st_MarkRunning store taskID (mr_WorkerId req)))"

section \<open>The worker's service\<close>

definition assignment_of :: "assign_request \<Rightarrow> assignment" where
  "assignment_of req = \<lparr>as_TaskID = req_TaskId req, as_ExecutableURI = req_ExecutableUri req,
     as_InputURI = req_InputUri req, as_OutputURI = req_OutputUri req, as_Args = req_Args req\<rparr>"

text \<open>The handler hands the assignment over and accepts it in any case.\<close>

definition server_AssignTask :: "assign_request \<Rightarrow> assignment list \<Rightarrow> (error + bool) \<times> assignment list" where
  "server_AssignTask req running = (Inr True, HandleAssignment (assignment_of req) running)"

section \<open>The clients\<close>

text \<open>
  \<open>grpc.NewClient\<close>, and the calls of the generated stubs on a connection to an address.
\<close>

record 'w grpc_lib =
  grpc_NewClient :: "string \<Rightarrow> ('w, unit) res"
  rpc_RenewLease :: "string \<Rightarrow> renew_request \<Rightarrow> ('w, unit) res"
  rpc_ReportResult :: "string \<Rightarrow> report_request \<Rightarrow> ('w, unit) res"
  rpc_MarkRunning :: "string \<Rightarrow> running_request \<Rightarrow> ('w, unit) res"

definition client_RenewLease :: "'w grpc_lib \<Rightarrow> string \<Rightarrow> renew_request \<Rightarrow> ('w, unit) res" where
  "client_RenewLease g addr req = bindE (grpc_NewClient g addr) (\<lambda>_. rpc_RenewLease g addr req)"

definition client_ReportResult :: "'w grpc_lib \<Rightarrow> string \<Rightarrow> report_request \<Rightarrow> ('w, unit) res" where
  "client_ReportResult g addr req = bindE (grpc_NewClient g addr) (\<lambda>_. rpc_ReportResult g addr req)"

definition client_MarkRunning :: "'w grpc_lib \<Rightarrow> string \<Rightarrow> running_request \<Rightarrow> ('w, unit) res" where
  "client_MarkRunning g addr req = bindE (grpc_NewClient g addr) (\<lambda>_. rpc_MarkRunning g addr req)"

text \<open>
  The client of the election service, \<open>election/client.go\<close>. The engine's goroutines see of it the
  result it returns, which is their \<open>Reply\<close>.
\<close>

record election_request =
  er_FromId :: uint64
  er_Term :: uint64
  er_GrpcAddr :: string

record coordinator_request =
  cr_LeaderId :: uint64
  cr_Term :: uint64

record 'w election_grpc =
  el_NewClient :: "string \<Rightarrow> ('w, unit) res"
  el_StartElection :: "string \<Rightarrow> election_request \<Rightarrow> ('w, bool \<times> uint64) res"
  el_AnnounceLeader :: "string \<Rightarrow> coordinator_request \<Rightarrow> ('w, unit) res"

definition client_StartElection :: "'w election_grpc \<Rightarrow> string \<Rightarrow> election_request \<Rightarrow> ('w, bool \<times> uint64) res" where
  "client_StartElection g addr req =
     bindE (wrapE (''start election: dial '' @ addr) (el_NewClient g addr))
     (\<lambda>_. wrapE (''start election: call '' @ addr) (el_StartElection g addr req))"

definition client_AnnounceLeader :: "'w election_grpc \<Rightarrow> string \<Rightarrow> coordinator_request \<Rightarrow> ('w, unit) res" where
  "client_AnnounceLeader g addr req =
     bindE (wrapE (''announce leader: dial '' @ addr) (el_NewClient g addr))
     (\<lambda>_. wrapE (''announce leader: call '' @ addr) (el_AnnounceLeader g addr req))"

section \<open>Properties\<close>

text \<open>
  A report reaches the store exactly when its task id is well formed and its outcome is one of
  the two known ones; otherwise the store is not touched and the caller gets \<open>InvalidArgument\<close>, never
  \<open>Internal\<close>. A report that reaches the store succeeds exactly when the store's operation does.
\<close>

theorem ReportResult_validates:
  "if (\<exists>t. uuid_Parse lib (rr_TaskId req) = Inr t) \<and> rr_Outcome req \<in> {SUCCESS, FAILED}
   then \<exists>t r. uuid_Parse lib (rr_TaskId req) = Inr t \<and>
     (if rr_Outcome req = SUCCESS then st_MarkCompleted store t (rr_WorkerId req) w
      else st_MarkFailed store t (rr_WorkerId req) (rr_Error req) w)
       = (r, snd (server_ReportResult lib store req w)) \<and>
     fst (server_ReportResult lib store req w) =
       (case r of Inr _ \<Rightarrow> Inr () | Inl e \<Rightarrow> Inl (StatusError ''Internal'' (error_text (uuid_String lib) e)))
   else \<exists>msg. server_ReportResult lib store req w = (Inl (StatusError ''InvalidArgument'' msg), w)"
  by (auto simp: server_ReportResult_def internalE_def throwE_def SUCCESS_def FAILED_def
      invalid_task_id_def invalid_outcome_def split: sum.splits prod.splits)

end
