(* ===== verification/SchedulerStore.thy ===== *)
theory SchedulerStore
  imports Scheduler
begin

text \<open>
  The scheduler on the PostgreSQL store, with the gRPC dispatcher and the round robin strategy. The
  world is the database session together with what happens outside the scheduler: before every call
  of the store, and while a dispatched request is under way, workers report on their tasks, clients
  submit tasks, time passes and other sessions take locks, in any order and number.
\<close>

section \<open>The world\<close>

datatype outside =
    WorkerCall store_op
  | ClientSubmit task_row
  | Elsewhere timestamp "fault list" "uuid list" "uuid list"

fun is_worker_op :: "store_op \<Rightarrow> bool" where
  "is_worker_op (OpRenewLease t w) \<longleftrightarrow> True"
| "is_worker_op (OpMarkRunning t w) \<longleftrightarrow> True"
| "is_worker_op (OpMarkCompleted t w) \<longleftrightarrow> True"
| "is_worker_op (OpMarkFailed t w e) \<longleftrightarrow> True"
| "is_worker_op _ \<longleftrightarrow> False"

fun outside_step :: "postgres_store \<Rightarrow> outside \<Rightarrow> pg \<Rightarrow> pg" where
  "outside_step st (WorkerCall op) s = (if is_worker_op op then run_op st op s else s)"
| "outside_step st (ClientSubmit r) s = submit (driver st) r s"
| "outside_step st (Elsewhere tm fs lt ll) s =
     (if now s \<le> tm then s\<lparr>now := tm, faults := fs, locked_tasks := lt, locked_leases := ll\<rparr> else s)"

record world =
  w_pg :: pg
  w_plan :: "outside list list"
  w_rpc :: "(error option \<times> (error + bool)) list"
  w_sent :: "(string \<times> assign_request) list"

definition meanwhile :: "postgres_store \<Rightarrow> world \<Rightarrow> world" where
  "meanwhile st w =
     (case w_plan w of [] \<Rightarrow> w
      | os # ps \<Rightarrow> w\<lparr>w_plan := ps, w_pg := fold (outside_step st) os (w_pg w)\<rparr>)"

definition on_pg :: "postgres_store \<Rightarrow> (pg, 'a) res \<Rightarrow> (world, 'a) res" where
  "on_pg st m w =
     (let w1 = meanwhile st w in case m (w_pg w1) of (r, s) \<Rightarrow> (r, w1\<lparr>w_pg := s\<rparr>))"

definition postgres_iface :: "postgres_store \<Rightarrow> world store_iface" where
  "postgres_iface st =
     \<lparr>st_ClaimQueued = (\<lambda>sid n. on_pg st (ClaimQueued st sid n)),
      st_ActiveLeases = on_pg st (ActiveLeases st),
      st_RenewLease = (\<lambda>t w. on_pg st (RenewLease st t w)),
      st_MarkAssigned = (\<lambda>t w. on_pg st (MarkAssigned st t w)),
      st_MarkRunning = (\<lambda>t w. on_pg st (MarkRunning st t w)),
      st_MarkCompleted = (\<lambda>t w. on_pg st (MarkCompleted st t w)),
      st_MarkFailed = (\<lambda>t w e. on_pg st (MarkFailed st t w e)),
      st_MarkWorkerLost = (\<lambda>t w e. on_pg st (MarkWorkerLost st t w e)),
      st_RecoverExpiredLeases = on_pg st (RecoverExpiredLeases st),
      st_RecoverDeadWorkerLeases = (\<lambda>alive. on_pg st (RecoverDeadWorkerLeases st alive)),
      st_RecoverStaleScheduling = on_pg st (RecoverStaleScheduling st)\<rparr>"

text \<open>
  \<open>GRPCTaskDispatcher.AssignTask\<close>: \<open>grpc.NewClient\<close> may fail; otherwise the request is sent, and the
  call returns what gRPC returns. The plan says what these two library calls do.
\<close>

definition dispatcher_AssignTask ::
  "postgres_store \<Rightarrow> string \<Rightarrow> assign_request \<Rightarrow> (world, bool) res" where
  "dispatcher_AssignTask st addr req w =
     (case w_rpc w of
        [] \<Rightarrow> (Inr True, meanwhile st (w\<lparr>w_sent := w_sent w @ [(addr, req)]\<rparr>))
      | (Some e, _) # ps \<Rightarrow> (Inl e, w\<lparr>w_rpc := ps\<rparr>)
      | (None, reply) # ps \<Rightarrow>
          (reply, meanwhile st (w\<lparr>w_rpc := ps, w_sent := w_sent w @ [(addr, req)]\<rparr>)))"

definition scheduler_deps :: "postgres_store \<Rightarrow> (uuid \<Rightarrow> string) \<Rightarrow> (world, round_robin) sched_deps" where
  "scheduler_deps st uuid_String =
     \<lparr>dep_store = postgres_iface st, dep_AssignTask = dispatcher_AssignTask st, dep_Pick = Pick,
      dep_uuid_String = uuid_String\<rparr>"

section \<open>The contract of the store\<close>

definition a_holders :: "astore \<Rightarrow> uuid \<Rightarrow> uint64 option" where
  "a_holders a t = map_option (uint64_of_int64 \<circ> fst) (a_lease a t)"

definition holders :: "pg \<Rightarrow> uuid \<Rightarrow> uint64 option" where
  "holders s = a_holders (abs_db (tables s))"

definition world_inv :: "postgres_store \<Rightarrow> world \<Rightarrow> bool" where
  "world_inv st w \<longleftrightarrow> store_inv st (w_pg w)"

definition world_holders :: "world \<Rightarrow> uuid \<Rightarrow> uint64 option" where
  "world_holders w = holders (w_pg w)"

lemma holders_le_tx:
  assumes "tx_result r (tables s) (tables s') Q"
    and "\<And>a. Q (Commit a) (tables s') \<Longrightarrow> a_holders (abs_db (tables s')) \<subseteq>\<^sub>m h" and "holders s \<subseteq>\<^sub>m h"
  shows "holders s' \<subseteq>\<^sub>m h"
  using assms by (auto simp: tx_result_def holders_def)

lemma a_holders_moves:
  "a_holders (a_append t sts a) = a_holders a"
  "a_holders (bulk T sts a) = a_holders a"
  "a_holders (a_set_lease t None a) = (a_holders a)(t := None)"
  "a_holders (a_set_lease t (Some (i, x)) a) = (a_holders a)(t \<mapsto> uint64_of_int64 i)"
  "a_holders (bulk_lose T a) = (\<lambda>t. if t \<in> T then None else a_holders a t)"
  by (auto simp: a_holders_def amachine bulk_def bulk_lose_def fun_eq_iff)

lemma map_le_drop: "h(t := None) \<subseteq>\<^sub>m h" "(\<lambda>t. if t \<in> T then None else h t) \<subseteq>\<^sub>m h"
  by (auto simp: map_le_def split: if_splits)

lemma worker_op_holders:
  assumes "is_worker_op op" and inv: "store_inv st s"
  shows "holders (run_op st op s) \<subseteq>\<^sub>m holders s"
proof (cases op)
  case (OpRenewLease t w)
  have wf: "pg_wf (driver st) s" using inv by (simp add: store_inv_def)
  have same: "a_holders a = (a_holders a)(t \<mapsto> w)" if "a_lease a t = Some (int64_of_uint64 w, x)" for a x
    using that by (auto simp: a_holders_def)
  from RenewLease_effect(2) [OF surjective_pairing wf, of t w] show ?thesis
    using same [of "abs_db (tables s)"]
    by (auto simp: OpRenewLease holders_def a_holders_moves abs_db_proj)
next
  case (OpMarkRunning t w)
  have wf: "pg_wf (driver st) s" using inv by (simp add: store_inv_def)
  show ?thesis unfolding OpMarkRunning run_op.simps
    using conjunct2 [OF MarkRunning_effect [OF surjective_pairing wf, of t w]]
    by (rule holders_le_tx) (auto simp: a_holders_moves holders_def)
next
  case (OpMarkCompleted t w)
  have wf: "pg_wf (driver st) s" using inv by (simp add: store_inv_def)
  show ?thesis unfolding OpMarkCompleted run_op.simps
    using conjunct2 [OF MarkCompleted_effect [OF surjective_pairing wf, of t w]]
    by (rule holders_le_tx) (auto simp: a_holders_moves holders_def map_le_drop)
next
  case (OpMarkFailed t w e)
  have wf: "pg_wf (driver st) s" using inv by (simp add: store_inv_def)
  show ?thesis unfolding OpMarkFailed run_op.simps
    using conjunct2 [OF MarkFailed_effect [OF surjective_pairing wf, of t w e]]
    by (rule holders_le_tx) (auto simp: a_holders_moves holders_def map_le_drop)
qed (use assms in auto)

lemma outside_step_ok:
  assumes "store_inv st s"
  shows "store_inv st (outside_step st e s) \<and> holders (outside_step st e s) \<subseteq>\<^sub>m holders s"
proof (cases e)
  case (WorkerCall op)
  have "is_worker_op op \<Longrightarrow> op_ok op (tables s)" by (cases op) auto
  with WorkerCall assms store_inv_run_op [OF assms, of op] worker_op_holders [OF _ assms, of op]
  show ?thesis by auto
next
  case (ClientSubmit r)
  have wf: "pg_wf (driver st) s" and m: "machine_inv (abs_db (tables s))"
    using assms by (simp_all add: store_inv_def)
  have "holders (submit (driver st) r s) = holders s"
  proof (cases "has_task (tables s) (t_id r)")
    case True
    then show ?thesis by (simp add: submit_def)
  next
    case False
    from submit_row(2) [OF wf False] show ?thesis by (simp add: holders_def a_holders_def fun_eq_iff)
  qed
  with ClientSubmit assms submit_inv [OF wf m, of r] show ?thesis by (simp add: store_inv_def)
next
  case (Elsewhere tm fs lt ll)
  with assms show ?thesis
    by (auto simp: store_inv_def pg_wf_def rows_before_def holders_def intro: order_trans)
qed

lemma meanwhile_ok:
  assumes "world_inv st w"
  shows "world_inv st (meanwhile st w) \<and> world_holders (meanwhile st w) \<subseteq>\<^sub>m world_holders w"
proof -
  have "store_inv st (fold (outside_step st) es s) \<and> holders (fold (outside_step st) es s) \<subseteq>\<^sub>m holders s"
    if "store_inv st s" for es s
    using that
  proof (induction es arbitrary: s)
    case Nil
    then show ?case by simp
  next
    case (Cons e es)
    then show ?case using outside_step_ok [OF Cons.prems, of e] map_le_trans by fastforce
  qed
  then show ?thesis using assms
    by (auto simp: meanwhile_def world_inv_def world_holders_def split: list.splits)
qed

text \<open>A law of a store call, through whatever happens before it.\<close>

lemma on_pg_law:
  assumes run: "on_pg st m w = (r, w')" and inv: "world_inv st w"
    and law: "\<And>s s'. m s = (r, s') \<Longrightarrow> store_inv st s \<Longrightarrow> holders s \<subseteq>\<^sub>m world_holders w \<Longrightarrow>
      store_inv st s' \<and> P (holders s')"
  shows "world_inv st w' \<and> P (world_holders w')"
proof -
  let ?w1 = "meanwhile st w"
  obtain s' where m: "m (w_pg ?w1) = (r, s')" and w': "w' = ?w1\<lparr>w_pg := s'\<rparr>"
    using run by (auto simp: on_pg_def Let_def split: prod.splits)
  from meanwhile_ok [OF inv] law [OF m] w' show ?thesis by (simp add: world_inv_def world_holders_def)
qed

section \<open>The laws\<close>

lemma store_invD: "store_inv st s \<Longrightarrow> pg_wf (driver st) s \<and> pgx_values (driver st) \<and> db_wf (tables s)"
  by (simp add: store_inv_def pg_wf_def)

lemma ClaimQueued_law:
  assumes run: "ClaimQueued st sid n s = (r, s')" and inv: "store_inv st s"
  shows "store_inv st s' \<and> holders s' \<subseteq>\<^sub>m holders s" and "r = Inr ts \<Longrightarrow> int (length ts) \<le> n"
proof -
  note eff = conjunct2 [OF ClaimQueued_effect [OF run conjunct1 [OF store_invD [OF inv]]]]
  have "holders s' \<subseteq>\<^sub>m holders s" using eff
    by (rule holders_le_tx) (auto simp: a_holders_moves holders_def split: if_splits)
  with store_inv_run_op [OF inv, of "OpClaimQueued sid n"] run
  show "store_inv st s' \<and> holders s' \<subseteq>\<^sub>m holders s" by simp
  assume "r = Inr ts"
  then obtain rows where rows: "sql_claim_queued (locked_tasks s) n (tables s) = Inr rows"
    and "map task_ID ts = map t_id rows \<or> ts = []"
    using eff by (auto simp: tx_result_def dest: scan_tasks_IDs split: if_splits)
  then have "length ts = length rows \<or> ts = []" by (metis length_map)
  with claim_rows(3,4) [OF rows] show "int (length ts) \<le> n" by auto
qed

lemma ran_holders:
  assumes "db_wf (tables s)"
  shows "ran (holders s) = (\<lambda>l. uint64_of_int64 (l_worker_id l)) ` set (lease_table (tables s))"
proof -
  have "k \<in> ran (holders s) \<longleftrightarrow> (\<exists>t w x. lease_of (tables s) t = Some (w, x) \<and> k = uint64_of_int64 w)" for k
    by (auto simp: ran_def holders_def a_holders_def abs_db_proj)
  then show ?thesis by (auto simp: set_eq_iff lease_of_Some [OF assms])
qed

lemma ActiveLeases_law:
  assumes run: "ActiveLeases st s = (r, s')" and inv: "store_inv st s"
  shows "store_inv st s' \<and> holders s' = holders s"
    and "r = Inr ls \<Longrightarrow> lease_WorkerID ` set ls = ran (holders s)"
proof -
  have "core (snd (ActiveLeases st s)) = core s"
    by (auto simp: ActiveLeases_def rows_err_def bindE_def wrapE_def returnE_def db_query_def
        dest!: next_fault_core split: prod.splits sum.splits fault.splits)
  with run have c: "core s' = core s" by simp
  from inv pg_wf_core [OF c] coreD [OF c]
  show "store_inv st s' \<and> holders s' = holders s" by (simp add: store_inv_def holders_def)
  assume "r = Inr ls"
  with run obtain sa sb u where
      q: "db_query (\<lambda>s. Inr (sql_list_active_leases (tables s))) s = (Inr sa, sb)"
    and ls: "ls = map (\<lambda>(t, w, x). \<lparr>lease_TaskID = t, lease_WorkerID = uint64_of_int64 w, lease_ExpiresAt = x\<rparr>) sa"
    by (auto simp: ActiveLeases_def res_simps)
  have "sa = sql_list_active_leases (tables s)" using db_query_Inr [OF q] coreD [of sb s] by auto
  then show "lease_WorkerID ` set ls = ran (holders s)"
    using ran_holders [of s] store_invD [OF inv]
    by (simp add: ls sql_list_active_leases_def image_image)
qed

lemma MarkAssigned_law:
  assumes run: "MarkAssigned st t k s = (r, s')" and inv: "store_inv st s"
  shows "store_inv st s' \<and> (holders s' = (holders s)(t \<mapsto> k) \<or> holders s' = holders s \<and> (\<exists>e. r = Inl e))"
  using store_inv_run_op [OF inv, of "OpMarkAssigned t k"]
    MarkAssigned_effect [OF run conjunct1 [OF store_invD [OF inv]]] run
  by (auto simp: tx_result_def holders_def a_holders_moves)

lemma MarkWorkerLost_law:
  assumes run: "MarkWorkerLost st t k msg s = (r, s')" and inv: "store_inv st s"
    and h: "holders s t \<in> {None, Some k}"
  shows "store_inv st s' \<and> holders s' \<subseteq>\<^sub>m holders s"
proof -
  note wf = conjunct1 [OF store_invD [OF inv]]
  have lease: "v = int64_of_uint64 k" if "lease_of (tables s) t = Some (v, x)" for v x
    using that h store_invD [OF inv] int64_of_uint64_of_int64 [of v]
    by (auto simp: holders_def a_holders_def abs_db_proj lease_of_Some db_wf_def)
  have "holders s' \<subseteq>\<^sub>m holders s"
  proof (cases "lease_of (tables s) t")
    case None
    then have "\<not> active (sql_latest_status t (tables s))"
      using inv by (auto simp: store_inv_def machine_inv_def lease_inv_def amachine)
    from conjunct2 [OF MarkWorkerLost_inactive [OF run wf this]] show ?thesis
      by (rule holders_le_tx) auto
  next
    case (Some v)
    with lease obtain x where "lease_of (tables s) t = Some (int64_of_uint64 k, x)" by (cases v) auto
    from conjunct2 [OF MarkWorkerLost_effect [OF run wf this]] show ?thesis
      by (rule holders_le_tx) (auto simp: a_holders_moves holders_def map_le_drop)
  qed
  moreover have "store_inv st s'"
    using store_inv_run_op [OF inv, of "OpMarkWorkerLost t k msg"] run lease by auto
  ultimately show ?thesis by simp
qed

lemma RecoverExpiredLeases_law:
  assumes run: "RecoverExpiredLeases st s = (r, s')" and inv: "store_inv st s"
  shows "store_inv st s' \<and> holders s' \<subseteq>\<^sub>m holders s"
proof -
  note D = store_invD [OF inv]
  have "holders s' \<subseteq>\<^sub>m holders s"
    using conjunct2 [OF RecoverExpiredLeases_effect [OF run conjunct1 [OF D] conjunct1 [OF conjunct2 [OF D]]]]
    by (rule holders_le_tx) (auto simp: a_holders_moves holders_def map_le_drop split: if_splits)
  with store_inv_run_op [OF inv, of OpRecoverExpired] run show ?thesis by simp
qed

lemma RecoverDeadWorkerLeases_law:
  assumes run: "RecoverDeadWorkerLeases st alive s = (r, s')" and inv: "store_inv st s"
  shows "store_inv st s' \<and> holders s' \<subseteq>\<^sub>m holders s"
proof -
  note D = store_invD [OF inv]
  have "map_of (map (\<lambda>i. (i, ())) (map fst alive)) k = None \<longleftrightarrow> map_of alive k = None" for k
    by (simp add: map_of_eq_None_iff image_image)
  then have "RecoverDeadWorkerLeases st (map (\<lambda>i. (i, ())) (map fst alive)) = RecoverDeadWorkerLeases st alive"
    unfolding RecoverDeadWorkerLeases_def by presburger
  with store_inv_run_op [OF inv, of "OpRecoverDead (map fst alive)"] run have "store_inv st s'" by simp
  moreover have "holders s' \<subseteq>\<^sub>m holders s"
    using conjunct2 [OF RecoverDeadWorkerLeases_effect [OF run conjunct1 [OF D]]]
    by (rule holders_le_tx) (auto simp: a_holders_moves holders_def map_le_drop split: if_splits)
  ultimately show ?thesis by simp
qed

lemma RecoverStaleScheduling_law:
  assumes run: "RecoverStaleScheduling st s = (r, s')" and inv: "store_inv st s"
  shows "store_inv st s' \<and> holders s' \<subseteq>\<^sub>m holders s"
proof -
  have "holders s' \<subseteq>\<^sub>m holders s"
    using conjunct2 [OF RecoverStaleScheduling_effect [OF run conjunct1 [OF store_invD [OF inv]]]]
    by (rule holders_le_tx) (auto simp: a_holders_moves holders_def split: if_splits)
  with store_inv_run_op [OF inv, of OpRecoverStale] run show ?thesis by simp
qed

lemma map_le_upd: "h \<subseteq>\<^sub>m h' \<Longrightarrow> h(t \<mapsto> k) \<subseteq>\<^sub>m h'(t \<mapsto> k)"
  by (auto simp: map_le_def)

interpretation pgs: task_store "postgres_iface st" "world_inv st" world_holders for st
proof unfold_locales
  fix w w' sid n t k alive and r :: "error + task list" and ra :: "error + lease list"
    and ru :: "error + unit" and rn :: "error + nat" and msg
  assume inv: "world_inv st w"
  have le: "\<And>h s s'. h \<subseteq>\<^sub>m holders s \<Longrightarrow> holders s \<subseteq>\<^sub>m world_holders w \<Longrightarrow> h \<subseteq>\<^sub>m world_holders w"
    by (rule map_le_trans)
  show "world_inv st w' \<and> world_holders w' \<subseteq>\<^sub>m world_holders w \<and> (\<forall>ts. r = Inr ts \<longrightarrow> int (length ts) \<le> n)"
    if "st_ClaimQueued (postgres_iface st) sid n w = (r, w')"
  proof (rule on_pg_law [where P = "\<lambda>h. h \<subseteq>\<^sub>m world_holders w \<and> (\<forall>ts. r = Inr ts \<longrightarrow> int (length ts) \<le> n)"])
    show "on_pg st (ClaimQueued st sid n) w = (r, w')" using that by (simp add: postgres_iface_def)
  qed (use inv ClaimQueued_law le in blast)+
  show "world_inv st w' \<and> world_holders w' \<subseteq>\<^sub>m world_holders w \<and>
      (\<forall>ls. ra = Inr ls \<longrightarrow> lease_WorkerID ` set ls = ran (world_holders w'))"
    if "st_ActiveLeases (postgres_iface st) w = (ra, w')"
  proof (rule on_pg_law [where P = "\<lambda>h. h \<subseteq>\<^sub>m world_holders w \<and>
      (\<forall>ls. ra = Inr ls \<longrightarrow> lease_WorkerID ` set ls = ran h)"])
    show "on_pg st (ActiveLeases st) w = (ra, w')" using that by (simp add: postgres_iface_def)
    show "store_inv st s' \<and> holders s' \<subseteq>\<^sub>m world_holders w \<and> (\<forall>ls. ra = Inr ls \<longrightarrow> lease_WorkerID ` set ls = ran (holders s'))"
      if "ActiveLeases st s = (ra, s')" "store_inv st s" "holders s \<subseteq>\<^sub>m world_holders w" for s s'
      using ActiveLeases_law [OF that(1,2)] that(3) by auto
  qed (rule inv)
  show "world_inv st w' \<and> (world_holders w' \<subseteq>\<^sub>m (world_holders w)(t \<mapsto> k) \<or>
      world_holders w' \<subseteq>\<^sub>m world_holders w \<and> (\<exists>e. ru = Inl e))"
    if "st_MarkAssigned (postgres_iface st) t k w = (ru, w')"
  proof (rule on_pg_law [where P = "\<lambda>h. h \<subseteq>\<^sub>m (world_holders w)(t \<mapsto> k) \<or>
      h \<subseteq>\<^sub>m world_holders w \<and> (\<exists>e. ru = Inl e)"])
    show "on_pg st (MarkAssigned st t k) w = (ru, w')" using that by (simp add: postgres_iface_def)
    show "store_inv st s' \<and> (holders s' \<subseteq>\<^sub>m (world_holders w)(t \<mapsto> k) \<or> holders s' \<subseteq>\<^sub>m world_holders w \<and> (\<exists>e. ru = Inl e))"
      if "MarkAssigned st t k s = (ru, s')" "store_inv st s" "holders s \<subseteq>\<^sub>m world_holders w" for s s'
      using MarkAssigned_law [OF that(1,2)] that(3) map_le_upd by auto
  qed (rule inv)
  show "world_inv st w' \<and> world_holders w' \<subseteq>\<^sub>m world_holders w"
    if "world_holders w t \<in> {None, Some k}" "st_MarkWorkerLost (postgres_iface st) t k msg w = (ru, w')"
  proof (rule on_pg_law [where P = "\<lambda>h. h \<subseteq>\<^sub>m world_holders w"])
    show "on_pg st (MarkWorkerLost st t k msg) w = (ru, w')" using that by (simp add: postgres_iface_def)
    show "store_inv st s' \<and> holders s' \<subseteq>\<^sub>m world_holders w"
      if "MarkWorkerLost st t k msg s = (ru, s')" "store_inv st s" "holders s \<subseteq>\<^sub>m world_holders w" for s s'
    proof -
      have "holders s t \<in> {None, Some k}"
        using \<open>world_holders w t \<in> {None, Some k}\<close> map_le_Some [OF that(3)] by (cases "holders s t") auto
      with MarkWorkerLost_law [OF that(1,2)] le that(3) show ?thesis by blast
    qed
  qed (rule inv)
  show "world_inv st w' \<and> world_holders w' \<subseteq>\<^sub>m world_holders w"
    if "st_RecoverExpiredLeases (postgres_iface st) w = (rn, w')"
  proof (rule on_pg_law [where P = "\<lambda>h. h \<subseteq>\<^sub>m world_holders w"])
    show "on_pg st (RecoverExpiredLeases st) w = (rn, w')" using that by (simp add: postgres_iface_def)
  qed (use inv RecoverExpiredLeases_law le in blast)+
  show "world_inv st w' \<and> world_holders w' \<subseteq>\<^sub>m world_holders w"
    if "st_RecoverDeadWorkerLeases (postgres_iface st) alive w = (rn, w')"
  proof (rule on_pg_law [where P = "\<lambda>h. h \<subseteq>\<^sub>m world_holders w"])
    show "on_pg st (RecoverDeadWorkerLeases st alive) w = (rn, w')" using that by (simp add: postgres_iface_def)
  qed (use inv RecoverDeadWorkerLeases_law le in blast)+
  show "world_inv st w' \<and> world_holders w' \<subseteq>\<^sub>m world_holders w"
    if "st_RecoverStaleScheduling (postgres_iface st) w = (rn, w')"
  proof (rule on_pg_law [where P = "\<lambda>h. h \<subseteq>\<^sub>m world_holders w"])
    show "on_pg st (RecoverStaleScheduling st) w = (rn, w')" using that by (simp add: postgres_iface_def)
  qed (use inv RecoverStaleScheduling_law le in blast)+
qed

lemma dispatcher_law:
  assumes "world_inv st w" and "dispatcher_AssignTask st addr req w = (r, w')"
  shows "world_inv st w' \<and> world_holders w' \<subseteq>\<^sub>m world_holders w"
proof -
  have same: "world_inv st (w\<lparr>w_rpc := ps, w_sent := q\<rparr>)" "world_holders (w\<lparr>w_rpc := ps, w_sent := q\<rparr>) = world_holders w"
    "world_inv st (w\<lparr>w_sent := q\<rparr>)" "world_holders (w\<lparr>w_sent := q\<rparr>) = world_holders w"
    "world_inv st (w\<lparr>w_rpc := ps\<rparr>)" "world_holders (w\<lparr>w_rpc := ps\<rparr>) = world_holders w" for ps q
    using assms(1) by (simp_all add: world_inv_def world_holders_def)
  show ?thesis using assms(2) meanwhile_ok [OF same(1)] meanwhile_ok [OF same(3)] same
    by (auto simp: dispatcher_AssignTask_def split: list.splits prod.splits option.splits)
qed

interpretation pgd: dispatching "postgres_iface st" "world_inv st" world_holders "dispatcher_AssignTask st" for st
  by unfold_locales (rule dispatcher_law)

interpretation pgsched: scheduling "postgres_iface st" "world_inv st" world_holders "dispatcher_AssignTask st"
    Pick rr_steady "scheduler_deps st uuid_String" for st uuid_String
  by unfold_locales (simp_all add: scheduler_deps_def)

end
