(* ===== verification/StoreTotal.thy ===== *)
theory StoreTotal
  imports StoreSafety
begin

text \<open>
  The operations of the store in a session without faults: which of them return a value, and the
  error of those that do not. Together with the effects of theory \<open>StoreOps\<close> this determines every
  operation on every branch.
\<close>

section \<open>Faults only run out\<close>

definition shrinks :: "(pg, 'a) res \<Rightarrow> bool" where
  "shrinks m \<longleftrightarrow> (\<forall>F. keepsE (\<lambda>s. set (faults s) \<subseteq> F) m)"

lemma shrinksD: "shrinks m \<Longrightarrow> m s = (r, s') \<Longrightarrow> set (faults s') \<subseteq> set (faults s)"
  unfolding shrinks_def by (blast dest: keepsED)

lemma shrinksI: "(\<And>s r s'. m s = (r, s') \<Longrightarrow> set (faults s') \<subseteq> set (faults s)) \<Longrightarrow> shrinks m"
  unfolding shrinks_def keepsE_def by (metis order_trans surjective_pairing)

lemma next_fault_shrinks: "next_fault s = (f, s') \<Longrightarrow> set (faults s') \<subseteq> set (faults s) \<and> (f \<noteq> NoFault \<longrightarrow> f \<in> set (faults s))"
  by (auto simp: next_fault_def split: list.splits)

lemma shrinks_rules:
  "shrinks m \<Longrightarrow> (\<And>a. shrinks (k a)) \<Longrightarrow> shrinks (bindE m k)"
  "shrinks n \<Longrightarrow> shrinks (wrapE c n)" "shrinks (returnE b)" "shrinks (throwE e)" "shrinks (liftE r)"
  "(\<And>x. shrinks (f x)) \<Longrightarrow> shrinks (forE f xs)"
  by (auto simp: shrinks_def intro: keepsE_intros)

lemma shrinks_db: "shrinks (db_query q)" "shrinks (db_exec x)"
  by (rule shrinksI, auto simp: db_query_def db_exec_def dest!: next_fault_shrinks
      split: prod.splits fault.splits sum.splits)+

lemma shrinks_insertStatus: "shrinks (insertStatus px t st who err)"
proof (rule shrinksI)
  fix s r s'
  assume *: "insertStatus px t st who err s = (r, s')"
  have "shrinks (wrapE c (db_exec q))" for c q by (intro shrinks_rules shrinks_db)
  from shrinksD [OF this * [unfolded insertStatus_def Let_def]]
  show "set (faults s') \<subseteq> set (faults s)" by simp
qed

lemma shrinks_helpers:
  "shrinks (latestStatus t)" "shrinks (ensureLeaseOwner t w)" "shrinks (ensureLatestStatusIn t sts)"
  "shrinks (deleteLease t w)" "shrinks rows_err" "shrinks (requeue_lease px nm reason l)"
  unfolding latestStatus_def ensureLeaseOwner_def ensureLatestStatusIn_def deleteLease_def
    rows_err_def requeue_lease_def
  by (auto intro!: shrinks_rules shrinks_db shrinks_insertStatus)

lemmas shrinks_all = shrinks_rules shrinks_db shrinks_insertStatus shrinks_helpers

lemma shrinks_in_tx: "shrinks body \<Longrightarrow> shrinks (in_tx nm body)"
proof (rule shrinksI)
  fix s r s' assume body: "shrinks body" and run: "in_tx nm body s = (r, s')"
  obtain b s1 where b: "wrapE (nm @ '': begin transaction'') (db_query (\<lambda>_. Inr ())) s = (b, s1)" by (rule prod.exhaust)
  have f1: "set (faults s1) \<subseteq> set (faults s)" using shrinksD [OF shrinks_rules(2) [OF shrinks_db(1)] b] .
  obtain r2 s2 where r2: "body s1 = (r2, s2)" by (rule prod.exhaust)
  obtain f s3 where f: "next_fault s2 = (f, s3)" by (rule prod.exhaust)
  have f2: "set (faults s2) \<subseteq> set (faults s)" using f1 shrinksD [OF body r2] by blast
  have f3: "set (faults s3) \<subseteq> set (faults s)" using f2 next_fault_shrinks [OF f] by blast
  have "faults s' \<in> {faults s1, faults s2, faults s3}"
    using run b r2 f by (auto simp: in_tx_def split: sum.splits tx_end.splits fault.splits)
  with f1 f2 f3 show "set (faults s') \<subseteq> set (faults s)" by (elim insertE emptyE) simp_all
qed

lemma shrinks_MarkAssigned: "shrinks (MarkAssigned st t w)"
  unfolding MarkAssigned_def by (auto intro!: shrinks_in_tx shrinks_all)

section \<open>An operation that fails leaves no trace\<close>

definition reply_lost :: "fault \<Rightarrow> bool" where
  "reply_lost f \<longleftrightarrow> (\<exists>e. f = ReplyLost e)"

lemma in_tx_atomic:
  assumes "in_tx nm body s = (Inl err, s')" and "shrinks body" and "\<forall>f \<in> set (faults s). \<not> reply_lost f"
  shows "tables s' = tables s"
proof -
  obtain b s1 where b: "wrapE (nm @ '': begin transaction'') (db_query (\<lambda>_. Inr ())) s = (b, s1)"
    by (rule prod.exhaust)
  have "s1 = snd (db_query (\<lambda>_. Inr ()) s)" using arg_cong [OF b, of snd] by simp
  then have t1: "tables s1 = tables s" using coreD [OF db_query_core, of "\<lambda>_. Inr ()" s] by (simp del: snd_wrapE)
  have f1: "set (faults s1) \<subseteq> set (faults s)"
    using shrinksD [OF shrinks_rules(2) [OF shrinks_db(1)] b] .
  obtain r2 s2 where r2: "body s1 = (r2, s2)" by (rule prod.exhaust)
  have f2: "set (faults s2) \<subseteq> set (faults s)" using shrinksD [OF assms(2) r2] f1 by simp
  obtain f s3 where f: "next_fault s2 = (f, s3)" by (rule prod.exhaust)
  have "\<not> reply_lost f" using next_fault_shrinks [OF f] f2 assms(3) by (cases f) (auto simp: reply_lost_def)
  with assms(1) b r2 f t1 show ?thesis
    by (auto simp: in_tx_def reply_lost_def split: sum.splits tx_end.splits fault.splits)
qed

definition error_of :: "error + 'a \<Rightarrow> error option" where
  "error_of r = (case r of Inl e \<Rightarrow> Some e | Inr _ \<Rightarrow> None)"

fun op_error :: "postgres_store \<Rightarrow> store_op \<Rightarrow> pg \<Rightarrow> error option" where
  "op_error st (OpClaimQueued sid n) s = error_of (fst (ClaimQueued st sid n s))"
| "op_error st (OpRenewLease t w) s = error_of (fst (RenewLease st t w s))"
| "op_error st (OpMarkAssigned t w) s = error_of (fst (MarkAssigned st t w s))"
| "op_error st (OpMarkRunning t w) s = error_of (fst (MarkRunning st t w s))"
| "op_error st (OpMarkCompleted t w) s = error_of (fst (MarkCompleted st t w s))"
| "op_error st (OpMarkFailed t w e) s = error_of (fst (MarkFailed st t w e s))"
| "op_error st (OpMarkWorkerLost t w e) s = error_of (fst (MarkWorkerLost st t w e s))"
| "op_error st OpRecoverExpired s = error_of (fst (RecoverExpiredLeases st s))"
| "op_error st (OpRecoverDead ids) s = error_of (fst (RecoverDeadWorkerLeases st (map (\<lambda>i. (i, ())) ids) s))"
| "op_error st OpRecoverStale s = error_of (fst (RecoverStaleScheduling st s))"

lemma error_of_Some: "error_of r = Some e \<longleftrightarrow> r = Inl e"
  by (cases r) (simp_all add: error_of_def)

lemma in_tx_atomic':
  assumes "error_of (fst (in_tx nm body s)) = Some e" and "shrinks body" and "\<forall>f \<in> set (faults s). \<not> reply_lost f"
  shows "tables (snd (in_tx nm body s)) = tables s"
  using in_tx_atomic [of nm body s e] assms by (metis error_of_Some surjective_pairing)

lemma renew_atomic:
  assumes "RenewLease st t w s = (Inl e, s')" and "db_wf (tables s)" and "\<forall>f \<in> set (faults s). \<not> reply_lost f"
  shows "tables s' = tables s"
proof -
  obtain f s0 where f: "next_fault s = (f, s0)" by (rule prod.exhaust)
  note c = coreD [OF next_fault_core [OF f]]
  obtain n d where nd: "sql_renew_lease (now s) t (int64_of_uint64 w) (leaseSeconds st) (tables s) = (n, d)"
    by (rule prod.exhaust)
  have "\<not> reply_lost f" using next_fault_shrinks [OF f] assms(3) by (cases f) (auto simp: reply_lost_def)
  with assms(1) f nd c renew_lease_abs(4) [OF assms(2) nd] show ?thesis
    by (auto simp: RenewLease_def bindE_def wrapE_def db_exec_def throwE_def returnE_def reply_lost_def
        split: fault.splits if_splits)
qed

lemma failed_op_unchanged:
  assumes "op_error st op s = Some e" and "db_wf (tables s)" and "\<forall>f \<in> set (faults s). \<not> reply_lost f"
  shows "tables (run_op st op s) = tables s"
proof (cases op)
  case (OpRenewLease t w)
  then have "RenewLease st t w s = (Inl e, run_op st op s)"
    using assms(1) by (metis error_of_Some op_error.simps(2) run_op.simps(2) surjective_pairing)
  from renew_atomic [OF this assms(2,3)] show ?thesis .
qed (use assms in \<open>auto simp: ClaimQueued_def MarkAssigned_def MarkRunning_def MarkCompleted_def MarkFailed_def
      MarkWorkerLost_def RecoverExpiredLeases_def RecoverDeadWorkerLeases_def RecoverStaleScheduling_def Let_def
      intro!: in_tx_atomic' shrinks_all split: prod.splits\<close>)

section \<open>Reading off effects\<close>

lemma tx_result_commit: "tx_result (Inr a) d d' Q \<Longrightarrow> (\<And>b d2. \<not> Q (NoCommit b) d2) \<Longrightarrow> \<exists>b. Q (Commit b) d'"
  by (auto simp: tx_result_def)

lemma abs_db_of:
  assumes "abs_db d' = a"
  shows "history d' t = a_hist a t" "lease_of d' t = a_lease a t"
  using assms by (auto simp: abs_db_def)

section \<open>Sessions without faults\<close>

lemma free_db:
  assumes "faults s = []"
  shows "db_query q s = (q s, s)"
    and "db_exec x s = (case x s of Inl e \<Rightarrow> (Inl e, s) | Inr (a, d) \<Rightarrow> (Inr a, s\<lparr>tables := d\<rparr>))"
  using assms by (simp_all add: db_query_def db_exec_def next_fault_def split: sum.splits)

lemma free_ensureLeaseOwner:
  "faults s = [] \<Longrightarrow> ensureLeaseOwner t w s =
     (if sql_check_lease_owner t (int64_of_uint64 w) (tables s) then Inr () else Inl (NotLeased t w), s)"
  by (simp add: ensureLeaseOwner_def bindE_def wrapE_def free_db throwE_def returnE_def)

lemma free_latestStatus:
  "faults s = [] \<Longrightarrow> latestStatus t s =
     (case sql_latest_status t (tables s) of
        None \<Rightarrow> Inl (Wrap ''latest status'' (Failure ''no rows in result set'')) | Some x \<Rightarrow> Inr x, s)"
  by (simp add: latestStatus_def wrapE_def free_db split: option.splits)

lemma free_ensureLatestStatusIn:
  "faults s = [] \<Longrightarrow> ensureLatestStatusIn t allowed s =
     (case sql_latest_status t (tables s) of
        None \<Rightarrow> Inl (Wrap ''latest status'' (Failure ''no rows in result set''))
      | Some x \<Rightarrow> if x \<in> set allowed then Inr () else Inl (InvalidStatus t (state_string x)), s)"
  by (simp add: ensureLatestStatusIn_def bindE_def free_latestStatus throwE_def returnE_def split: option.splits)

lemma free_rows_err: "faults s = [] \<Longrightarrow> rows_err s = (Inr (), s)"
  by (simp add: rows_err_def free_db)

lemma free_in_tx:
  assumes "faults s = []" and "body s = (r, s2)" and "faults s2 = []"
  shows "in_tx nm body s = (map_sum id (\<lambda>e. case e of NoCommit a \<Rightarrow> a | Commit a \<Rightarrow> a) r,
     case r of Inr (Commit a) \<Rightarrow> s2 | _ \<Rightarrow> s2\<lparr>tables := tables s\<rparr>)"
  using assms
  by (cases r) (auto simp: in_tx_def wrapE_def free_db next_fault_def split: tx_end.splits)

text \<open>
  A computation \<open>runs\<close> when it returns a value from every well formed session without faults that has
  the given tasks, and leaves such a session.
\<close>

definition ready :: "pgx \<Rightarrow> db \<Rightarrow> pg \<Rightarrow> bool" where
  "ready px d s \<longleftrightarrow> faults s = [] \<and> pg_wf px s \<and> task_table (tables s) = task_table d"

definition runs :: "pgx \<Rightarrow> db \<Rightarrow> (pg, 'a) res \<Rightarrow> bool" where
  "runs px d m \<longleftrightarrow> (\<forall>s. ready px d s \<longrightarrow> (\<exists>a s'. m s = (Inr a, s') \<and> ready px d s'))"

lemma runsE:
  assumes "runs px d m" and "ready px d s"
  obtains a s' where "m s = (Inr a, s')" "ready px d s'"
  using assms unfolding runs_def by blast

lemma runs_rules:
  "runs px d m \<Longrightarrow> (\<And>a. runs px d (k a)) \<Longrightarrow> runs px d (bindE m k)"
  "runs px d n \<Longrightarrow> runs px d (wrapE c n)" "runs px d (returnE b)"
  unfolding runs_def bindE_def wrapE_def returnE_def by fastforce+

lemma runs_forE: "(\<And>x. x \<in> set xs \<Longrightarrow> runs px d (f x)) \<Longrightarrow> runs px d (forE f xs)"
proof (induction xs)
  case Nil
  then show ?case by (simp add: runs_def)
next
  case (Cons x xs)
  then have "runs px d (f x)" and "runs px d (forE f xs)" by simp_all
  then show ?case unfolding runs_def by (fastforce split: sum.splits prod.splits)
qed

lemma runs_insertStatus:
  assumes "has_task d t"
  shows "runs px d (insertStatus px t st who err)"
  unfolding runs_def
proof (intro allI impI)
  fix s assume r: "ready px d s"
  then have wf: "pg_wf px s" and fr: "faults s = []" by (simp_all add: ready_def)
  have "has_task (tables s) t" using r assms by (simp add: ready_def has_task_def)
  then obtain d' where d': "sql_insert_status (uuidv7 px (drawn s)) (now s) t st (map_option int64_of_uint64 who)
      (if err \<noteq> '''' then Some err else None) (tables s) = Inr d'"
    using insert_status_total wf by (fastforce simp: pg_wf_def)
  let ?s' = "s\<lparr>drawn := Suc (drawn s), tables := d'\<rparr>"
  have run: "insertStatus px t st who err s = (Inr (), ?s')"
    using d' fr by (simp add: insertStatus_def Let_def wrapE_def free_db split: sum.splits)
  have "ready px d ?s'"
    using insertStatus_ok(1,6) [OF run wf] r by (simp add: ready_def)
  with run show "\<exists>a s'. insertStatus px t st who err s = (Inr a, s') \<and> ready px d s'" by blast
qed

lemma runs_deleteLease: "runs px d (deleteLease t w)"
  unfolding runs_def
  by (auto simp: deleteLease_def free_db ready_def pg_wf_def db_wf_def rows_before_def sql_delete_lease_def
      has_task_def distinct_map inj_on_def)

lemmas runs_all = runs_rules runs_forE runs_insertStatus runs_deleteLease

lemma latest_has_task:
  assumes "db_wf d" and "sql_latest_status t d = Some x"
  shows "has_task d t"
proof -
  have "history_rows d t \<noteq> []" using assms(2) by (auto simp: sql_latest_status_def)
  then obtain r where "r \<in> set (history_rows d t)" by (meson last_in_set)
  then have "r \<in> set (status_table d)" "s_task_id r = t" by (simp_all add: history_rows_def)
  with assms(1) show ?thesis by (auto simp: db_wf_def)
qed

lemma ready_here: "faults s = [] \<Longrightarrow> pg_wf px s \<Longrightarrow> ready px (tables s) s"
  by (simp add: ready_def)

text \<open>
  A transaction in a session without faults: checks that read the tables, then a part that runs and
  ends with a commit.
\<close>

definition commits :: "pgx \<Rightarrow> db \<Rightarrow> (pg, 'a tx_end) res \<Rightarrow> bool" where
  "commits px d m \<longleftrightarrow> (\<forall>s. ready px d s \<longrightarrow> (\<exists>a s'. m s = (Inr (Commit a), s') \<and> ready px d s'))"

definition commits_at :: "pgx \<Rightarrow> db \<Rightarrow> (pg, 'a tx_end) res \<Rightarrow> 'a \<Rightarrow> pg \<Rightarrow> bool" where
  "commits_at px d m a s \<longleftrightarrow> (\<exists>s'. m s = (Inr (Commit a), s') \<and> ready px d s')"

lemma commits_at_check: "m s = (Inr v, s) \<Longrightarrow> commits_at px d (k v) a s \<Longrightarrow> commits_at px d (bindE m k) a s"
  by (simp add: commits_at_def bindE_def)

lemma commits_at_run:
  assumes "ready px d s" and "runs px d m" and "\<And>v s'. ready px d s' \<Longrightarrow> commits_at px d (k v) a s'"
  shows "commits_at px d (bindE m k) a s"
proof -
  obtain v s' where "m s = (Inr v, s')" "ready px d s'" by (rule runsE [OF assms(2,1)])
  with assms(3) [of s' v] show ?thesis by (auto simp: commits_at_def bindE_def)
qed

lemma commits_at_end: "ready px d s \<Longrightarrow> commits_at px d (returnE (Commit a)) a s"
  by (simp add: commits_at_def returnE_def)

lemma free_tx_commit:
  assumes "ready px d s" and "commits_at px d body a s"
  shows "\<exists>s'. in_tx nm body s = (Inr a, s')"
  using assms free_in_tx [of s body] by (fastforce simp: ready_def commits_at_def)

lemma free_tx_error:
  assumes "faults s = []" and "body s = (Inl e, s)"
  shows "in_tx nm body s = (Inl e, s)"
  using assms by (simp add: free_in_tx)

section \<open>The operations without faults\<close>

text \<open>
  Each operation that a worker or the scheduler calls on one task: the checks it makes, in their
  order, decide between an error and success; the conditions are read off the tables.
\<close>

lemmas free_checks = free_ensureLeaseOwner free_ensureLatestStatusIn free_latestStatus bindE_def wrapE_def

lemma free_owner_errors:
  assumes fr: "faults s = []"
  shows "\<not> sql_check_lease_owner t (int64_of_uint64 w) (tables s) \<Longrightarrow>
      bindE (wrapE c (ensureLeaseOwner t w)) k s = (Inl (Wrap c (NotLeased t w)), s)"
    and "sql_check_lease_owner t (int64_of_uint64 w) (tables s) \<Longrightarrow>
      sql_latest_status t (tables s) = Some x \<Longrightarrow> x \<notin> set allowed \<Longrightarrow>
      bindE (wrapE c (ensureLeaseOwner t w)) (\<lambda>_. bindE (wrapE c (ensureLatestStatusIn t allowed)) k') s =
        (Inl (Wrap c (InvalidStatus t (state_string x))), s)"
  using fr by (simp_all add: free_checks)

lemma commits_at_status:
  assumes "faults s = []" and "sql_latest_status t (tables s) = Some x" and "x \<in> set allowed"
    and "commits_at px d (k ()) a s"
  shows "commits_at px d (bindE (wrapE c (ensureLatestStatusIn t allowed)) k) a s"
  using assms by (intro commits_at_check) (auto simp: free_checks)

lemma commits_at_latest:
  assumes "faults s = []" and "sql_latest_status t (tables s) = Some x" and "commits_at px d (k x) a s"
  shows "commits_at px d (bindE (wrapE c (latestStatus t)) k) a s"
  using assms by (intro commits_at_check) (auto simp: free_checks)

lemma commits_at_owner:
  assumes "faults s = []" and "sql_check_lease_owner t (int64_of_uint64 w) (tables s)"
    and "commits_at px d (k ()) a s"
  shows "commits_at px d (bindE (wrapE c (ensureLeaseOwner t w)) k) a s"
  using assms by (intro commits_at_check) (auto simp: free_checks)

lemma free_MarkCompleted:
  assumes fr: "faults s = []" and wf: "pg_wf (driver st) s"
    and own: "sql_check_lease_owner t (int64_of_uint64 w) (tables s)"
    and run: "sql_latest_status t (tables s) = Some StateRunning"
  shows "\<exists>s'. MarkCompleted st t w s = (Inr (), s')"
proof -
  have ht: "has_task (tables s) t" using wf run by (auto simp: pg_wf_def intro: latest_has_task)
  show ?thesis unfolding MarkCompleted_def
    by (rule free_tx_commit [OF ready_here [OF fr wf]], rule commits_at_owner [OF fr own],
        rule commits_at_status [OF fr run], simp)
      (intro commits_at_run commits_at_end runs_all ht ready_here [OF fr wf])
qed

lemma free_MarkRunning:
  assumes fr: "faults s = []" and wf: "pg_wf (driver st) s"
    and own: "sql_check_lease_owner t (int64_of_uint64 w) (tables s)"
    and run: "sql_latest_status t (tables s) = Some x" "x \<in> {StateAssigned, StateRunning}"
  shows "\<exists>s'. MarkRunning st t w s = (Inr (), s')"
proof -
  have ht: "has_task (tables s) t" using wf run(1) by (auto simp: pg_wf_def intro: latest_has_task)
  have x: "x \<in> set [StateAssigned, StateRunning]" using run(2) by simp
  show ?thesis unfolding MarkRunning_def
    by (rule free_tx_commit [OF ready_here [OF fr wf]], rule commits_at_owner [OF fr own],
        rule commits_at_status [OF fr run(1) x])
      (intro commits_at_run commits_at_end runs_all ht ready_here [OF fr wf])
qed

lemma commits_at_query:
  assumes "ready px d s" and "\<And>s'. ready px d s' \<Longrightarrow> \<exists>v. q s' = Inr v \<and> commits_at px d (k v) a s'"
  shows "commits_at px d (bindE (wrapE c (db_query q)) k) a s"
proof -
  obtain v where "q s = Inr v" "commits_at px d (k v) a s" using assms by blast
  moreover have "faults s = []" using assms(1) by (simp add: ready_def)
  ultimately show ?thesis by (intro commits_at_check [of _ _ v]) (simp_all add: wrapE_def free_db)
qed

lemma free_MarkFailed:
  assumes fr: "faults s = []" and wf: "pg_wf (driver st) s"
    and own: "sql_check_lease_owner t (int64_of_uint64 w) (tables s)"
    and run: "sql_latest_status t (tables s) = Some x" "x \<in> {StateAssigned, StateRunning}"
  shows "\<exists>s'. MarkFailed st t w err s = (Inr (), s')"
proof -
  have ht: "has_task (tables s) t" using wf run(1) by (auto simp: pg_wf_def intro: latest_has_task)
  have x: "x \<in> set [StateAssigned, StateRunning]" using run(2) by simp
  have cnt: "\<exists>c. sql_count_failed t (tables s') = Some c" if "ready (driver st) (tables s) s'" for s'
    using that ht by (auto simp: ready_def sql_count_failed_def has_task_def filter_empty_conv split: list.splits)
  show ?thesis unfolding MarkFailed_def
    apply (rule free_tx_commit [OF ready_here [OF fr wf]])
    apply (rule commits_at_owner [OF fr own])
    apply (rule commits_at_status [OF fr run(1) x])
    apply (rule commits_at_run [OF ready_here [OF fr wf]], intro runs_all ht)
    apply (rule commits_at_run, assumption, intro runs_all)
    apply (rule commits_at_query, assumption)
    subgoal for v s' u s'' s3
      by (rule exE [OF cnt [of s3]], assumption, rule exI, rule conjI, simp)
        (auto intro!: commits_at_run commits_at_end runs_all ht split: prod.splits)
    done
qed

lemma free_MarkAssigned:
  assumes fr: "faults s = []" and wf: "pg_wf (driver st) s"
    and run: "sql_latest_status t (tables s) = Some StateScheduling"
  shows "\<exists>s'. MarkAssigned st t w s = (Inr (), s')"
proof -
  have ht: "has_task (tables s) t" using wf run by (auto simp: pg_wf_def intro: latest_has_task)
  let ?upsert = "\<lambda>s. map_sum id (Pair ())
       (sql_upsert_lease (now s) t (int64_of_uint64 w) (leaseSeconds st) (tables s))"
  have ups: "runs (driver st) (tables s) (db_exec ?upsert)"
    unfolding runs_def
  proof (intro allI impI)
    fix s1 assume r: "ready (driver st) (tables s) s1"
    then have "has_task (tables s1) t" using ht by (simp add: ready_def has_task_def)
    then obtain d' where d': "sql_upsert_lease (now s1) t (int64_of_uint64 w) (leaseSeconds st) (tables s1) = Inr d'"
      by (cases "has_lease (tables s1) t") (simp_all add: sql_upsert_lease_def)
    have "db_wf d'" using upsert_lease_abs [OF _ d'] r by (simp add: ready_def pg_wf_def)
    moreover note upsert_lease_frame(1,2) [OF d']
    ultimately show "\<exists>a s'. db_exec ?upsert s1 = (Inr a, s') \<and> ready (driver st) (tables s) s'"
      using r d' by (auto simp: free_db ready_def pg_wf_def rows_before_def)
  qed
  show ?thesis unfolding MarkAssigned_def
    by (rule free_tx_commit [OF ready_here [OF fr wf]], rule commits_at_latest [OF fr run], simp)
      (intro commits_at_run commits_at_end runs_all ups ht ready_here [OF fr wf])
qed

lemma free_MarkWorkerLost:
  assumes fr: "faults s = []" and wf: "pg_wf (driver st) s"
    and run: "sql_latest_status t (tables s) = Some x" "x \<in> {StateAssigned, StateRunning}"
  shows "\<exists>s'. MarkWorkerLost st t w err s = (Inr (), s')"
proof -
  have ht: "has_task (tables s) t" using wf run(1) by (auto simp: pg_wf_def intro: latest_has_task)
  have x: "x \<in> set [StateAssigned, StateRunning]" using run(2) by simp
  show ?thesis unfolding MarkWorkerLost_def
    by (rule free_tx_commit [OF ready_here [OF fr wf]], rule commits_at_status [OF fr run(1) x])
      (intro commits_at_run commits_at_end runs_all ht ready_here [OF fr wf])
qed

section \<open>The operations on many tasks without faults\<close>

lemma commits_at_loop:
  assumes "ready px d s" and "\<And>x. x \<in> set xs \<Longrightarrow> runs px d (f x)"
  shows "commits_at px d (bindE (forE f xs) (\<lambda>_. returnE (Commit a))) a s"
  using assms by (intro commits_at_run commits_at_end runs_forE)

text \<open>The common shape of claiming and recovering: query, scan, and a loop when there is anything to do.\<close>

lemma free_batch:
  assumes r: "ready px d s" and q: "q s = Inr rows" and sc: "collectE scan rows = Inr ys"
    and body: "\<And>y. y \<in> set ys \<Longrightarrow> runs px d (f y)"
  shows "\<exists>s'. in_tx nm (bindE (wrapE c1 (db_query q))
       (\<lambda>rows. bindE (wrapE c2 (liftE (collectE scan rows)))
       (\<lambda>ys. bindE (wrapE c3 rows_err)
       (\<lambda>_. if ys = [] then returnE (NoCommit (val [])) else bindE (forE f ys) (\<lambda>_. returnE (Commit (val ys))))))) s
     = (Inr (val ys), s')"
proof -
  have fr: "faults s = []" using r by (simp add: ready_def)
  let ?body = "bindE (wrapE c1 (db_query q))
       (\<lambda>rows. bindE (wrapE c2 (liftE (collectE scan rows)))
       (\<lambda>ys. bindE (wrapE c3 rows_err)
       (\<lambda>_. if ys = [] then returnE (NoCommit (val [])) else bindE (forE f ys) (\<lambda>_. returnE (Commit (val ys))))))"
  have eq: "?body s = (if ys = [] then (Inr (NoCommit (val [])), s) else bindE (forE f ys) (\<lambda>_. returnE (Commit (val ys))) s)"
    using fr q sc by (simp add: bindE_def wrapE_def free_db free_rows_err liftE_def returnE_def)
  show ?thesis
  proof (cases "ys = []")
    case True
    with eq fr show ?thesis by (simp add: free_in_tx)
  next
    case False
    have "commits_at px d (bindE (forE f ys) (\<lambda>_. returnE (Commit (val ys)))) (val ys) s"
      by (rule commits_at_loop [OF r body])
    with eq False have "commits_at px d ?body (val ys) s" by (simp add: commits_at_def)
    then show ?thesis by (rule free_tx_commit [OF r])
  qed
qed

lemma free_ClaimQueued:
  assumes fr: "faults s = []" and wf: "pg_wf (driver st) s"
    and rows: "sql_claim_queued (locked_tasks s) n (tables s) = Inr rows"
    and sc: "collectE (scan_task (driver st)) rows = Inr ts"
  shows "\<exists>s'. ClaimQueued st sid n s = (Inr ts, s')"
proof -
  have "has_task (tables s) (task_ID y)" if "y \<in> set ts" for y
  proof -
    have "task_ID y \<in> set (map t_id rows)" using that scan_tasks_IDs [OF sc] by (metis imageI set_map)
    with claim_rows(1) [OF rows] show ?thesis by (auto simp: has_task_def)
  qed
  note ht = this
  show ?thesis unfolding ClaimQueued_def
    by (rule free_batch [where val = "\<lambda>ys. ys", OF ready_here [OF fr wf] _ sc])
      (simp_all add: rows runs_all ht)
qed

lemma runs_requeue: "has_task d (fst l) \<Longrightarrow> runs px d (requeue_lease px nm reason l)"
  unfolding requeue_lease_def by (intro runs_all)

lemma leased_has_task:
  assumes "store_inv st s" and "lease_of (tables s) t = Some v"
  shows "has_task (tables s) t"
proof -
  have "active (sql_latest_status t (tables s))"
    using assms lease_invD [of "abs_db (tables s)" t v] by (simp add: store_inv_def machine_inv_def amachine)
  then show ?thesis using assms(1) latest_has_task by (auto simp: active_def store_inv_def pg_wf_def)
qed

lemma free_RecoverExpiredLeases:
  assumes fr: "faults s = []" and inv: "store_inv st s"
    and sc: "collectE (scan_expired (driver st)) (sql_select_expired_leases (locked_leases s) (now s) (tables s)) = Inr ls"
  shows "\<exists>s'. RecoverExpiredLeases st s = (Inr (length ls), s')"
proof -
  have wf: "pg_wf (driver st) s" and db: "db_wf (tables s)" and px: "pgx_values (driver st)"
    using inv by (simp_all add: store_inv_def pg_wf_def)
  have "has_task (tables s) (fst l)" if "l \<in> set ls" for l
    using that scan_expired_leases(2) [OF sc db px, of "fst l" "snd l"] leased_has_task [OF inv] by auto
  note ht = this
  show ?thesis unfolding RecoverExpiredLeases_def
    by (rule free_batch [where val = length and f = "requeue_lease (driver st) ''recover expired leases'' ''lease expired''"
        and q = "\<lambda>s. Inr (sql_select_expired_leases (locked_leases s) (now s) (tables s))",
        OF ready_here [OF fr wf] refl sc runs_requeue [OF ht], unfolded list.size(3)])
qed

lemma free_RecoverDeadWorkerLeases:
  assumes fr: "faults s = []" and inv: "store_inv st s"
  shows "\<exists>s'. RecoverDeadWorkerLeases st alive s =
    (Inr (length (dead_leases alive (sql_select_active_leases (locked_leases s) (tables s)))), s')"
proof -
  let ?ls = "dead_leases alive (sql_select_active_leases (locked_leases s) (tables s))"
  let ?loop = "forE (requeue_lease (driver st) ''recover dead worker leases''
                         ''worker not alive during leader recovery'') ?ls"
  have wf: "pg_wf (driver st) s" and db: "db_wf (tables s)" using inv by (simp_all add: store_inv_def pg_wf_def)
  have "has_task (tables s) (fst l)" if "l \<in> set ?ls" for l
    using that dead_leases_iff(2) [OF db, of "fst l" "snd l" alive "locked_leases s"] leased_has_task [OF inv, of "fst l"] by auto
  then have loop: "commits_at (driver st) (tables s) (bindE ?loop (\<lambda>_. returnE (Commit (length ?ls)))) (length ?ls) s"
    by (intro commits_at_loop ready_here fr wf runs_requeue)
  show ?thesis
  proof (cases "?ls = []")
    case True
    then show ?thesis using fr
      by (auto simp: RecoverDeadWorkerLeases_def free_in_tx bindE_def wrapE_def free_db free_rows_err returnE_def
          Let_def dead_leases_def)
  next
    case False
    show ?thesis unfolding RecoverDeadWorkerLeases_def
      by (rule free_tx_commit [OF ready_here [OF fr wf]])
        (use False loop fr in \<open>simp add: commits_at_def bindE_def [of "wrapE _ _"] wrapE_def free_db free_rows_err
          Let_def dead_leases_def\<close>)
  qed
qed

lemma free_RecoverStaleScheduling:
  assumes fr: "faults s = []" and wf: "pg_wf (driver st) s"
  shows "\<exists>s'. RecoverStaleScheduling st s =
    (Inr (length (sql_select_stale_scheduling (locked_tasks s) (tables s))), s')"
proof -
  let ?ts = "sql_select_stale_scheduling (locked_tasks s) (tables s)"
  let ?loop = "forE (\<lambda>t. wrapE ''recover stale scheduling: requeue''
                   (insertStatus (driver st) t StateQueued None ''recovered stale scheduling'')) ?ts"
  have "has_task (tables s) t" if "t \<in> set ?ts" for t
    using that by (auto simp: sql_select_stale_scheduling_def has_task_def)
  then have loop: "commits_at (driver st) (tables s) (bindE ?loop (\<lambda>_. returnE (Commit (length ?ts)))) (length ?ts) s"
    by (intro commits_at_loop ready_here fr wf runs_all)
  show ?thesis
  proof (cases "?ts = []")
    case True
    then show ?thesis using fr
      by (auto simp: RecoverStaleScheduling_def free_in_tx bindE_def wrapE_def free_db free_rows_err returnE_def)
  next
    case False
    show ?thesis unfolding RecoverStaleScheduling_def
      by (rule free_tx_commit [OF ready_here [OF fr wf]])
        (use False loop fr in \<open>simp add: commits_at_def bindE_def [of "wrapE _ _"] wrapE_def free_db free_rows_err\<close>)
  qed
qed

section \<open>The owner of a lease\<close>

definition owns :: "db \<Rightarrow> uuid \<Rightarrow> uint64 \<Rightarrow> bool" where
  "owns d t w \<longleftrightarrow> (\<exists>x. lease_of d t = Some (int64_of_uint64 w, x))"

lemma owns_iff: "pg_wf px s \<Longrightarrow> owns (tables s) t w \<longleftrightarrow> sql_check_lease_owner t (int64_of_uint64 w) (tables s)"
  by (simp add: owns_def check_owner_iff pg_wf_def)

lemma owns_active: "store_inv st s \<Longrightarrow> owns (tables s) t w \<Longrightarrow> active (sql_latest_status t (tables s))"
  using lease_invD [of "abs_db (tables s)" t] by (auto simp: owns_def store_inv_def machine_inv_def amachine)

text \<open>Without faults, what the owner of a lease asks for is done, and nothing else.\<close>

lemma owner_completes:
  assumes "faults s = []" and "store_inv st s" and "owns (tables s) t w"
    and "sql_latest_status t (tables s) = Some StateRunning"
  shows "\<exists>s'. MarkCompleted st t w s = (Inr (), s') \<and> store_inv st s' \<and>
    (\<forall>u. history (tables s') u = history (tables s) u @ (if u = t then [StateCompleted] else [])) \<and>
    (\<forall>u. lease_of (tables s') u = (if u = t then None else lease_of (tables s) u))"
proof -
  have wf: "pg_wf (driver st) s" using assms(2) by (simp add: store_inv_def)
  obtain s' where s': "MarkCompleted st t w s = (Inr (), s')"
    using free_MarkCompleted [OF assms(1) wf] assms(3,4) owns_iff [OF wf] by blast
  have "abs_db (tables s') = a_set_lease t None (a_append t [StateCompleted] (abs_db (tables s)))"
    using tx_result_commit [OF conjunct2 [OF MarkCompleted_effect [OF s' wf]]] by auto
  note eff = abs_db_of [OF this]
  have "store_inv st s'" using store_inv_run_op [OF assms(2), of "OpMarkCompleted t w"] s' by simp
  with s' eff show ?thesis by (auto simp: amachine)
qed

lemma owner_runs:
  assumes "faults s = []" and "store_inv st s" and "owns (tables s) t w"
  shows "\<exists>s'. MarkRunning st t w s = (Inr (), s') \<and> store_inv st s' \<and>
    (\<forall>u. history (tables s') u = history (tables s) u @ (if u = t then [StateRunning] else [])) \<and>
    (\<forall>u. lease_of (tables s') u = lease_of (tables s) u) \<and> max_of (tables s') = max_of (tables s)"
proof -
  have wf: "pg_wf (driver st) s" using assms(2) by (simp add: store_inv_def)
  obtain x where "sql_latest_status t (tables s) = Some x" "x \<in> {StateAssigned, StateRunning}"
    using owns_active [OF assms(2,3)] by (auto simp: active_def)
  then obtain s' where s': "MarkRunning st t w s = (Inr (), s')"
    using free_MarkRunning [OF assms(1) wf] assms(3) owns_iff [OF wf] by blast
  have abs: "abs_db (tables s') = a_append t [StateRunning] (abs_db (tables s))"
    using tx_result_commit [OF conjunct2 [OF MarkRunning_effect [OF s' wf]]] by auto
  note eff = abs_db_of [OF abs]
  have "max_of (tables s') = max_of (tables s)" using arg_cong [OF abs, of a_max] by (simp add: amachine)
  moreover have "store_inv st s'" using store_inv_run_op [OF assms(2), of "OpMarkRunning t w"] s' by simp
  ultimately show ?thesis using s' eff by (auto simp: amachine)
qed

lemma owner_fails:
  assumes "faults s = []" and "store_inv st s" and "max_of (tables s) t = Some m" and "owns (tables s) t w"
  shows "\<exists>s'. MarkFailed st t w err s = (Inr (), s') \<and> store_inv st s' \<and>
    (\<forall>u. history (tables s') u = history (tables s) u @
       (if u = t then StateFailed # (if failed_count (tables s) t + 1 < m then [StateQueued] else []) else [])) \<and>
    (\<forall>u. lease_of (tables s') u = (if u = t then None else lease_of (tables s) u))"
proof -
  have wf: "pg_wf (driver st) s" using assms(2) by (simp add: store_inv_def)
  obtain x where "sql_latest_status t (tables s) = Some x" "x \<in> {StateAssigned, StateRunning}"
    using owns_active [OF assms(2,4)] by (auto simp: active_def)
  then obtain s' where s': "MarkFailed st t w err s = (Inr (), s')"
    using free_MarkFailed [OF assms(1) wf] assms(4) owns_iff [OF wf] by blast
  have "abs_db (tables s') = a_set_lease t None (a_append t
      (if failed_count (tables s) t + 1 < m then [StateFailed, StateQueued] else [StateFailed]) (abs_db (tables s)))"
    using tx_result_commit [OF conjunct2 [OF MarkFailed_effect [OF s' wf]]] assms(3) by auto
  note eff = abs_db_of [OF this]
  have "store_inv st s'" using store_inv_run_op [OF assms(2), of "OpMarkFailed t w err"] s' by simp
  with s' eff show ?thesis by (auto simp: amachine)
qed

lemma scheduling_assigned:
  assumes "faults s = []" and "store_inv st s" and "sql_latest_status t (tables s) = Some StateScheduling"
  shows "\<exists>s'. MarkAssigned st t w s = (Inr (), s') \<and> store_inv st s' \<and>
    (\<forall>u. history (tables s') u = history (tables s) u @ (if u = t then [StateAssigned] else [])) \<and>
    (\<forall>u. lease_of (tables s') u = (if u = t
       then Some (int64_of_uint64 w, now s + go_div (leaseDuration st) 1000000000 * 1000000)
       else lease_of (tables s) u)) \<and> max_of (tables s') = max_of (tables s)"
proof -
  have wf: "pg_wf (driver st) s" using assms(2) by (simp add: store_inv_def)
  obtain s' where s': "MarkAssigned st t w s = (Inr (), s')"
    using free_MarkAssigned [OF assms(1) wf assms(3)] by blast
  have abs: "abs_db (tables s') = a_set_lease t (Some (int64_of_uint64 w, lease_expiry (now s) (leaseSeconds st)))
       (a_append t [StateAssigned] (abs_db (tables s)))"
    using tx_result_commit [OF conjunct2 [OF MarkAssigned_effect [OF s' wf]]] by auto
  note eff = abs_db_of [OF abs]
  have "max_of (tables s') = max_of (tables s)" using arg_cong [OF abs, of a_max] by (simp add: amachine)
  moreover have "store_inv st s'" using store_inv_run_op [OF assms(2), of "OpMarkAssigned t w"] s' by simp
  ultimately show ?thesis using s' eff by (auto simp: amachine lease_expiry_def leaseSeconds_def)
qed

text \<open>A session without faults to come stays one.\<close>

definition faultless :: "pg \<Rightarrow> bool" where
  "faultless s \<longleftrightarrow> faults s = []"

lemma faultless_calls:
  "keepsE faultless (db_query f)" "keepsE faultless (db_exec g)" "keepsE faultless (insertStatus px u a b c)"
  by (auto simp: keepsE_def faultless_def db_query_def db_exec_def insertStatus_def Let_def next_fault_def
      split: sum.splits)

lemma faultless_in_tx:
  assumes "keepsE faultless body"
  shows "keepsE faultless (in_tx nm body)"
  unfolding keepsE_def
proof (intro allI impI)
  fix s assume s: "faultless s"
  obtain r s2 where b: "body s = (r, s2)" by fastforce
  have "faults s2 = []" using keepsED [OF assms s b] by (simp add: faultless_def)
  with free_in_tx [of s body r s2] b s show "faultless (snd (in_tx nm body s))"
    by (auto simp: faultless_def split: sum.splits tx_end.splits)
qed

lemma faultless_MarkRunning: "keepsE faultless (MarkRunning st t w)"
  unfolding MarkRunning_def ensureLeaseOwner_def ensureLatestStatusIn_def latestStatus_def
  by (auto intro!: faultless_in_tx keepsE_intros faultless_calls)

lemma faultless_MarkAssigned: "keepsE faultless (MarkAssigned st t w)"
  unfolding MarkAssigned_def latestStatus_def
  by (auto intro!: faultless_in_tx keepsE_intros faultless_calls)

end
