(* ===== verification/SchedulerProps.thy ===== *)
theory SchedulerProps
  imports SchedulerStore StoreTotal
begin

text \<open>The properties of the scheduler on the PostgreSQL store, with the cluster's view and round robin.\<close>

section \<open>One task per worker\<close>

text \<open>
  One tick of the scheduler, with workers reporting, clients submitting, time passing and calls
  failing at any point of it, keeps the invariant of the store and lets no worker hold two leases;
  new leases go only to members the node sees, and never to the leader itself.
\<close>

theorem tick_keeps_one_task_per_worker:
  assumes "ms = Members (fold (notify js) es NewEventHandler)" and "length ms < 2 ^ 64"
    and "tick (scheduler_deps st uuid_String) isLeader ms e w = (e', w')"
    and "world_inv st w" and "exclusive (world_holders w)" and "rr_steady (sch_strategy e) (length ms)"
  shows "world_inv st w' \<and> exclusive (world_holders w') \<and>
    ran (world_holders w') \<subseteq> ran (world_holders w) \<union> (fst ` set ms - {sch_selfID e})"
proof -
  have "handler_ok (fold (notify js) es NewEventHandler)" by (rule fold_notify_ok [OF handler_ok_new])
  then have "gomap_ok ms" "\<forall>i m. map_of ms i = Some m \<longrightarrow> member_ID m = i"
    by (auto simp: assms(1) handler_ok_def Members_def)
  from pgsched.tick_exclusive [OF assms(3-5) this(1) assms(2) this(2) assms(6)] show ?thesis
    by (simp add: pgsched.tick_post_def)
qed

section \<open>Worlds to compute with\<close>

definition demo_world :: "pg \<Rightarrow> outside list list \<Rightarrow> (error option \<times> (error + bool)) list \<Rightarrow> world" where
  "demo_world s plan rpc = \<lparr>w_pg = s, w_plan = plan, w_rpc = rpc, w_sent = []\<rparr>"

definition demo_json :: json_codec where
  "demo_json = \<lparr>Marshal = (\<lambda>m. Inr (meta_GRPCAddr m)), Unmarshal = (\<lambda>b. Inr \<lparr>meta_GRPCAddr = b\<rparr>)\<rparr>"

definition demo_joins :: "notification list" where
  "demo_joins = [Joined \<lparr>Name = ''9'', Meta = ''n9:1''\<rparr>, Joined \<lparr>Name = ''5'', Meta = ''n5:1''\<rparr>,
     Joined \<lparr>Name = ''4'', Meta = ''n4:1''\<rparr>]"

definition demo_members :: "(uint64, member) gomap" where
  "demo_members = Members (fold (notify demo_json) demo_joins NewEventHandler)"

definition demo_scheduler :: "round_robin sched_engine" where
  "demo_scheduler = NewScheduler 9 \<lparr>PollInterval = 1000, BatchSize = 10, Strategy_name = ''round_robin'',
     LeaseDuration = 30000000000\<rparr> NewRoundRobin"

definition demo_deps :: "(world, round_robin) sched_deps" where
  "demo_deps = scheduler_deps demo_store (\<lambda>_. ''task'')"

definition demo_tick :: "round_robin sched_engine \<times> world" where
  "demo_tick = tick demo_deps True demo_members demo_scheduler
     (demo_world (submit demo_px (demo_task 8 1) (demo_run [])) [] [])"

lemma demo_inv: "store_inv demo_store (submit demo_px (demo_task 8 1) (demo_run []))"
proof -
  have "store_inv demo_store (demo_run [])" by (rule store_reachable_inv [OF demo_run_reachable]) auto
  from store_inv_step [OF store_step.submitted this] show ?thesis
    by (simp add: demo_store_def NewPostgresStore_def)
qed

theorem tick_one_task_witness:
  "exclusive (world_holders (snd demo_tick)) \<and>
   lease_of (tables (w_pg (snd demo_tick))) 7 = Some (4, 30000000) \<and>
   lease_of (tables (w_pg (snd demo_tick))) 8 = Some (5, 30000000)"
proof -
  let ?w = "demo_world (submit demo_px (demo_task 8 1) (demo_run [])) [] []"
  have l: "lease_of (tables (w_pg (snd demo_tick))) 7 = Some (4, 30000000)"
      "lease_of (tables (w_pg (snd demo_tick))) 8 = Some (5, 30000000)"
    and n: "length demo_members = 3" and lt: "lease_table (tables (w_pg ?w)) = []"
    and c: "sch_strategy demo_scheduler = \<lparr>counter = 0\<rparr>" by code_simp+
  have "world_inv demo_store ?w" using demo_inv by (simp add: demo_world_def world_inv_def)
  moreover have "exclusive (world_holders ?w)"
    using lt by (simp add: exclusive_def world_holders_def holders_def a_holders_def abs_db_proj lease_of_def)
  moreover have "tick (scheduler_deps demo_store (\<lambda>_. ''task'')) True demo_members demo_scheduler ?w =
      (fst demo_tick, snd demo_tick)"
    by (simp add: demo_tick_def demo_deps_def)
  ultimately show ?thesis
    using tick_keeps_one_task_per_worker [of demo_members demo_json demo_joins demo_store "\<lambda>_. ''task''" True
        demo_scheduler ?w "fst demo_tick" "snd demo_tick"] l
    by (simp add: demo_members_def [symmetric] n c rr_steady_def)
qed

section \<open>Dispatching one task\<close>

lemma quiet_call: "w_plan w = [] \<Longrightarrow> on_pg st m w = (fst (m (w_pg w)), w\<lparr>w_pg := snd (m (w_pg w))\<rparr>)"
  by (simp add: on_pg_def meanwhile_def Let_def split: prod.splits)

text \<open>
  C25: A claimed task for which the strategy has a worker is assigned and sent to that worker's address.
  If the call fails, the task is back in the queue with its history \<open>ASSIGNED\<close>, \<open>WORKER_LOST\<close>,
  \<open>QUEUED\<close> and no lease; otherwise the worker holds the lease.
\<close>

theorem dispatch_outcome:
  assumes "w_plan w = []" and "world_inv st w" and "faults (w_pg w) = []" and "Pick ms s = ((m, True), s1)"
    and "sql_latest_status (task_ID t) (tables (w_pg w)) = Some StateScheduling"
    and "dispatchClaimedTasks (scheduler_deps st uuid_String) [t] ms s w = (s', w')"
    and "w_rpc w = (dial, reply) # rest"
  shows "s' = s1 \<and>
    w_sent w' = w_sent w @ (if dial = None then [(member_GRPCAddr m, assign_req (scheduler_deps st uuid_String) t)] else []) \<and>
    (\<forall>u. history (tables (w_pg w')) u = history (tables (w_pg w)) u @
       (if u \<noteq> task_ID t then []
        else if dial = None \<and> \<not> isl reply then [StateAssigned] else [StateAssigned, StateWorkerLost, StateQueued])) \<and>
    map_option fst (lease_of (tables (w_pg w')) (task_ID t)) =
      (if dial = None \<and> \<not> isl reply then Some (int64_of_uint64 (member_ID m)) else None)"
proof -
  let ?k = "member_ID m" and ?t = "task_ID t" and ?s = "w_pg w"
  let ?deps = "scheduler_deps st uuid_String" and ?ok = "dial = None \<and> \<not> isl reply"
  let ?call = "(member_GRPCAddr m, assign_req ?deps t)"
  have inv: "store_inv st ?s" and wf: "pg_wf (driver st) ?s" using assms(2) by (simp_all add: world_inv_def store_inv_def)
  obtain sa where sa: "MarkAssigned st ?t ?k ?s = (Inr (), sa)"
    using free_MarkAssigned [OF assms(3) wf assms(5)] by blast
  obtain x where a: "abs_db (tables sa) = a_set_lease ?t (Some (int64_of_uint64 ?k, x)) (a_append ?t [StateAssigned] (abs_db (tables ?s)))"
    using tx_result_commit [OF conjunct2 [OF MarkAssigned_effect [OF sa wf]]] by auto
  have inva: "store_inv st sa" using store_inv_run_op [OF inv, of "OpMarkAssigned ?t ?k"] sa by simp
  then have wfa: "pg_wf (driver st) sa" by (simp add: store_inv_def)
  have fra: "faults sa = []" using shrinksD [OF shrinks_MarkAssigned sa] assms(3) by simp
  note ea = abs_db_of [OF a]
  have "sql_latest_status ?t (tables sa) = Some StateAssigned" using ea(1) [of ?t] by (simp add: sql_latest_status_history amachine)
  then obtain sb where sb: "MarkWorkerLost st ?t ?k ''dispatch failed'' sa = (Inr (), sb)"
    using free_MarkWorkerLost [OF fra wfa] by blast
  have la: "lease_of (tables sa) ?t = Some (int64_of_uint64 ?k, x)" using ea(2) by (simp add: amachine)
  have b: "abs_db (tables sb) = a_set_lease ?t None (a_append ?t [StateWorkerLost, StateQueued] (abs_db (tables sa)))"
    using tx_result_commit [OF conjunct2 [OF MarkWorkerLost_effect [OF sb wfa la]]] by auto
  note eb = abs_db_of [OF b]
  have w': "s' = s1 \<and> w' = w\<lparr>w_pg := if ?ok then sa else sb, w_rpc := rest,
      w_sent := w_sent w @ (if dial = None then [?call] else [])\<rparr>"
    using assms(1,4,6,7) sa sb
    by (cases dial; cases reply)
      (auto simp: scheduler_deps_def postgres_iface_def quiet_call dispatcher_AssignTask_def meanwhile_def)
  show ?thesis using w' ea eb by (cases ?ok) (auto simp: amachine)
qed

definition demo_claimed :: pg where
  "demo_claimed = demo_run [OpClaimQueued 9 1]"

definition demo_claimed_task :: task where
  "demo_claimed_task = \<lparr>task_ID = 7, task_Executable = ''run.sh'', task_InputURI = ''in'', task_OutputURI = ''out'',
     task_Args = [], task_MaxRetries = 2, task_CreatedAt = 0\<rparr>"

lemma demo_claimed_inv: "store_inv demo_store demo_claimed"
  unfolding demo_claimed_def by (rule store_reachable_inv [OF demo_run_reachable]) auto

theorem dispatch_outcome_witness:
  "\<exists>s' w'. dispatchClaimedTasks (scheduler_deps demo_store (\<lambda>_. ''task'')) [demo_claimed_task] demo_members
       NewRoundRobin (demo_world demo_claimed [] [(None, Inl (Failure ''unavailable''))]) = (s', w') \<and>
     history (tables (w_pg w')) 7 = [StateQueued, StateScheduling, StateAssigned, StateWorkerLost, StateQueued] \<and>
     lease_of (tables (w_pg w')) 7 = None"
proof -
  let ?w = "demo_world demo_claimed [] [(None, Inl (Failure ''unavailable''))]"
  have f: "faults (w_pg ?w) = []" and p: "Pick demo_members NewRoundRobin =
      ((\<lparr>member_ID = 4, member_GRPCAddr = ''n4:1''\<rparr>, True), \<lparr>counter = 1\<rparr>)"
    and l: "sql_latest_status (task_ID demo_claimed_task) (tables (w_pg ?w)) = Some StateScheduling"
    and h: "history (tables (w_pg ?w)) 7 = [StateQueued, StateScheduling]"
    and i: "task_ID demo_claimed_task = 7" by code_simp+
  have pl: "w_plan ?w = []" "w_rpc ?w = (None, Inl (Failure ''unavailable'')) # []" by (simp_all add: demo_world_def)
  have inv: "world_inv demo_store ?w" using demo_claimed_inv by (simp add: demo_world_def world_inv_def)
  obtain s' w' where r: "dispatchClaimedTasks (scheduler_deps demo_store (\<lambda>_. ''task'')) [demo_claimed_task] demo_members
      NewRoundRobin ?w = (s', w')" by (rule prod.exhaust)
  from dispatch_outcome [OF pl(1) inv f p l r pl(2)] r h i show ?thesis by auto
qed

section \<open>Recovery\<close>

text \<open>
  A node that is not the leader touches nothing and forgets that it recovered; a leader without
  workers does nothing; a leader with workers has recovered after the tick, and recovers in it, before
  everything else, exactly when it had not done so since it became leader.
\<close>

theorem recovery_once_per_leadership:
  assumes "tick deps isLeader ms e w = (e', w')"
  shows "(\<not> isLeader \<longrightarrow> w' = w \<and> \<not> didLeaderRecovery e') \<and>
    (isLeader \<and> aliveWorkers (sch_selfID e) ms = [] \<longrightarrow> w' = w \<and> e' = e) \<and>
    (isLeader \<and> aliveWorkers (sch_selfID e) ms \<noteq> [] \<longrightarrow> didLeaderRecovery e' \<and>
       tick deps isLeader ms (e\<lparr>didLeaderRecovery := True\<rparr>)
         (if didLeaderRecovery e then w else recoverOnLeadership (dep_store deps) (aliveWorkers (sch_selfID e) ms) w)
       = (e', w'))"
proof -
  have flag: "didLeaderRecovery (fst (tick deps True ms e w))" if "aliveWorkers (sch_selfID e) ms \<noteq> []"
    using that by (auto simp: tick_def Let_def split: sum.splits prod.splits)
  have "tick deps True ms (e\<lparr>didLeaderRecovery := True\<rparr>)
         (if didLeaderRecovery e then w else recoverOnLeadership (dep_store deps) (aliveWorkers (sch_selfID e) ms) w)
       = tick deps True ms e w" if "aliveWorkers (sch_selfID e) ms \<noteq> []"
    using that by (simp add: tick_def Let_def split: sum.splits prod.splits)
  with flag assms show ?thesis by (cases isLeader) (auto simp: tick_def)
qed

theorem recovery_once_witness:
  "\<not> didLeaderRecovery demo_scheduler \<and> didLeaderRecovery (fst demo_tick) \<and>
   \<not> didLeaderRecovery (fst (tick demo_deps False demo_members (fst demo_tick) (snd demo_tick)))"
proof -
  let ?w = "demo_world (submit demo_px (demo_task 8 1) (demo_run [])) [] []"
  have a: "aliveWorkers (sch_selfID demo_scheduler) demo_members \<noteq> []" by code_simp
  have n: "\<not> didLeaderRecovery demo_scheduler" by code_simp
  have t: "tick demo_deps True demo_members demo_scheduler ?w = (fst demo_tick, snd demo_tick)" by (simp add: demo_tick_def)
  have "\<not> didLeaderRecovery (fst (tick demo_deps False demo_members (fst demo_tick) (snd demo_tick)))"
    using recovery_once_per_leadership [OF surjective_pairing, where deps = demo_deps and isLeader = False] by blast
  with recovery_once_per_leadership [OF t] a n show ?thesis by blast
qed

definition refused_recovery :: "outside list list" where
  "refused_recovery = [[Elsewhere 1 [Refused (Failure ''conn closed'')] [] []]]"

definition first_tick :: "round_robin sched_engine \<times> world" where
  "first_tick = tick demo_deps True demo_members demo_scheduler (demo_world demo_claimed refused_recovery [])"

definition second_tick :: "round_robin sched_engine \<times> world" where
  "second_tick = tick demo_deps True demo_members (fst first_tick) (snd first_tick)"


section \<open>The whole run\<close>


definition demo_events :: "sched_event list" where
  "demo_events = [SchedTick True demo_members, SchedTick False [], SchedTick True demo_members, SchedDone]"


end
