(* ===== verification/StoreProps.thy ===== *)
theory StoreProps
  imports StoreTotal
begin

text \<open>
  The properties of the task store: what holds of every reachable database, that an operation that
  fails leaves no trace, and what each operation does in a session without faults, on every branch.
\<close>

section \<open>Reachable stores\<close>


lemma demo_running_inv: "store_inv demo_store (demo_run to_running)"
  by (rule store_reachable_inv [OF demo_run_reachable]) (auto simp: to_running_def)









definition demo_done :: pg where
  "demo_done = demo_run (to_running @ [OpMarkCompleted 7 5])"



definition demo_failed :: pg where
  "demo_failed = demo_run (to_running @ [OpMarkFailed 7 5 ''boom''] @ to_running @ [OpMarkFailed 7 5 ''boom''])"


section \<open>Failures\<close>


definition demo_broken :: pg where
  "demo_broken = (demo_run to_running)\<lparr>faults := [NoFault, NoFault, NoFault, NoFault, NoFault, Refused (Failure ''conn closed'')]\<rparr>"


section \<open>Operations on one task\<close>

text \<open>
  C20: Without faults, \<open>MarkCompleted\<close> rejects a worker that does not hold the lease, rejects a task that
  is not running, and otherwise succeeds, appends \<open>COMPLETED\<close> to that task's history only and
  releases that lease only.
\<close>

theorem MarkCompleted_decides:
  assumes "faults s = []" and "store_inv st s"
  shows "if \<not> owns (tables s) t w then MarkCompleted st t w s = (Inl (Wrap ''mark completed'' (NotLeased t w)), s)
    else if sql_latest_status t (tables s) = Some StateAssigned
      then MarkCompleted st t w s = (Inl (Wrap ''mark completed'' (InvalidStatus t ''ASSIGNED'')), s)
    else \<exists>s'. MarkCompleted st t w s = (Inr (), s') \<and> store_inv st s' \<and>
      (\<forall>u. history (tables s') u = history (tables s) u @ (if u = t then [StateCompleted] else [])) \<and>
      (\<forall>u. lease_of (tables s') u = (if u = t then None else lease_of (tables s) u))"
proof -
  have wf: "pg_wf (driver st) s" using assms(2) by (simp add: store_inv_def)
  note own = owns_iff [OF wf]
  show ?thesis
  proof (cases "owns (tables s) t w \<and> sql_latest_status t (tables s) \<noteq> Some StateAssigned")
    case True
    then have "sql_latest_status t (tables s) = Some StateRunning"
      using owns_active [OF assms(2)] by (auto simp: active_def)
    with True show ?thesis using owner_completes [OF assms] by simp
  next
    case False
    then show ?thesis unfolding MarkCompleted_def own
      using free_owner_errors(1) [OF assms(1), of t w] assms(1)
      by (auto intro!: free_tx_error [OF assms(1)] simp: free_checks)
  qed
qed

theorem MarkCompleted_witness:
  "owns (tables (demo_run to_running)) 7 5 \<and>
   (\<exists>s'. MarkCompleted demo_store 7 5 (demo_run to_running) = (Inr (), s') \<and>
      history (tables s') 7 = [StateQueued, StateScheduling, StateAssigned, StateRunning, StateCompleted]) \<and>
   MarkCompleted demo_store 7 6 (demo_run to_running) =
     (Inl (Wrap ''mark completed'' (NotLeased 7 6)), demo_run to_running)"
proof -
  have f: "faults (demo_run to_running) = []"
    and l: "sql_latest_status 7 (tables (demo_run to_running)) = Some StateRunning"
    and c: "sql_check_lease_owner 7 (int64_of_uint64 5) (tables (demo_run to_running))"
      "\<not> sql_check_lease_owner 7 (int64_of_uint64 6) (tables (demo_run to_running))" by code_simp+
  have wf: "pg_wf (driver demo_store) (demo_run to_running)" using demo_running_inv by (simp add: store_inv_def)
  have "owns (tables (demo_run to_running)) 7 5" "\<not> owns (tables (demo_run to_running)) 7 6"
    using c by (simp_all add: owns_iff [OF wf])
  with MarkCompleted_decides [OF f demo_running_inv, of 7 5] MarkCompleted_decides [OF f demo_running_inv, of 7 6] l
    demo_running show ?thesis by auto
qed

text \<open>
  C21: Without faults, \<open>MarkFailed\<close> rejects a worker that does not hold the lease and otherwise records
  the failure and releases the lease; the task goes back to the queue exactly when it has now failed
  fewer times than its limit.
\<close>

theorem MarkFailed_decides:
  assumes "faults s = []" and "store_inv st s" and "max_of (tables s) t = Some m"
  shows "if \<not> owns (tables s) t w then MarkFailed st t w err s = (Inl (Wrap ''mark failed'' (NotLeased t w)), s)
    else \<exists>s'. MarkFailed st t w err s = (Inr (), s') \<and> store_inv st s' \<and>
      (\<forall>u. history (tables s') u = history (tables s) u @
         (if u = t then StateFailed # (if failed_count (tables s) t + 1 < m then [StateQueued] else []) else [])) \<and>
      (\<forall>u. lease_of (tables s') u = (if u = t then None else lease_of (tables s) u))"
proof -
  have wf: "pg_wf (driver st) s" using assms(2) by (simp add: store_inv_def)
  note own = owns_iff [OF wf]
  show ?thesis
  proof (cases "owns (tables s) t w")
    case True
    with owner_fails [OF assms] show ?thesis by simp
  next
    case False
    then show ?thesis unfolding MarkFailed_def own
      using free_owner_errors(1) [OF assms(1), of t w] by (auto intro!: free_tx_error [OF assms(1)])
  qed
qed

theorem MarkFailed_witness:
  "\<exists>s'. MarkFailed demo_store 7 5 ''boom'' (demo_run to_running) = (Inr (), s') \<and>
     history (tables s') 7 = [StateQueued, StateScheduling, StateAssigned, StateRunning, StateFailed, StateQueued] \<and>
     lease_of (tables s') 7 = None"
proof -
  have f: "faults (demo_run to_running) = []" and m: "max_of (tables (demo_run to_running)) 7 = Some 2"
    and n: "failed_count (tables (demo_run to_running)) 7 = 0"
    and c: "sql_check_lease_owner 7 (int64_of_uint64 5) (tables (demo_run to_running))" by code_simp+
  have wf: "pg_wf (driver demo_store) (demo_run to_running)" using demo_running_inv by (simp add: store_inv_def)
  have "owns (tables (demo_run to_running)) 7 5" using c by (simp add: owns_iff [OF wf])
  with MarkFailed_decides [OF f demo_running_inv m, of 5 "''boom''"] n demo_running show ?thesis by auto
qed

text \<open>
  Without faults, \<open>MarkAssigned\<close> succeeds exactly on a task whose latest status is \<open>SCHEDULING\<close>; it
  then appends \<open>ASSIGNED\<close> and gives the worker a lease that ends the configured whole number of seconds
  after the time of the transaction.
\<close>

theorem MarkAssigned_decides:
  assumes "faults s = []" and "store_inv st s" and "sql_latest_status t (tables s) = Some x"
  shows "if x \<noteq> StateScheduling
    then MarkAssigned st t w s = (Inl (Wrap ''mark assigned'' (InvalidStatus t (state_string x))), s)
    else \<exists>s'. MarkAssigned st t w s = (Inr (), s') \<and> store_inv st s' \<and>
      (\<forall>u. history (tables s') u = history (tables s) u @ (if u = t then [StateAssigned] else [])) \<and>
      (\<forall>u. lease_of (tables s') u = (if u = t
         then Some (int64_of_uint64 w, now s + go_div (leaseDuration st) 1000000000 * 1000000)
         else lease_of (tables s) u))"
proof (cases "x = StateScheduling")
  case True
  with assms(3) have "sql_latest_status t (tables s) = Some StateScheduling" by simp
  from scheduling_assigned [OF assms(1,2) this, of w] True show ?thesis by auto
next
  case False
  then show ?thesis unfolding MarkAssigned_def
    using assms(1,3) by (auto intro!: free_tx_error simp: free_checks throwE_def)
qed

theorem MarkAssigned_witness:
  "\<exists>s'. MarkAssigned demo_store 7 5 (demo_run [OpClaimQueued 9 1]) = (Inr (), s') \<and>
     lease_of (tables s') 7 = Some (5, 30000000)"
proof -
  have f: "faults (demo_run [OpClaimQueued 9 1]) = []" and tm: "now (demo_run [OpClaimQueued 9 1]) = 0"
    and l: "sql_latest_status 7 (tables (demo_run [OpClaimQueued 9 1])) = Some StateScheduling"
    and w: "int64_of_uint64 5 = 5" and d: "go_div (leaseDuration demo_store) 1000000000 = 30" by code_simp+
  have "store_inv demo_store (demo_run [OpClaimQueued 9 1])"
    by (rule store_reachable_inv [OF demo_run_reachable]) auto
  from MarkAssigned_decides [OF f this l, of 5] tm w d show ?thesis by auto
qed

section \<open>Claiming and recovering\<close>

lemma tx_result_Inr:
  assumes "tx_result (Inr a) d d' Q"
  shows "(\<exists>d2. d' = d \<and> Q (NoCommit a) d2) \<or> Q (Commit a) d'"
  using assms by (auto simp: tx_result_def)



text \<open>
  C23: Without faults, and when the driver can scan the rows, \<open>RecoverExpiredLeases\<close> returns the number
  of expired leases that no other session has locked, puts exactly their tasks back into the queue
  and leaves no such lease behind.
\<close>

theorem RecoverExpiredLeases_complete:
  assumes "faults s = []" and "store_inv st s"
    and "collectE (scan_expired (driver st)) (sql_select_expired_leases (locked_leases s) (now s) (tables s)) = Inr ls"
  shows "\<exists>s'. RecoverExpiredLeases st s = (Inr (length ls), s') \<and> store_inv st s' \<and>
    (\<forall>u. let lost = (\<exists>w x. lease_of (tables s) u = Some (w, x) \<and> x < now s) \<and> u \<notin> set (locked_leases s) in
      history (tables s') u = history (tables s) u @ (if lost then [StateWorkerLost, StateQueued] else []) \<and>
      lease_of (tables s') u = (if lost then None else lease_of (tables s) u)) \<and>
    length ls = card {u. (\<exists>w x. lease_of (tables s) u = Some (w, x) \<and> x < now s) \<and> u \<notin> set (locked_leases s)}"
proof -
  have wf: "pg_wf (driver st) s" and db: "db_wf (tables s)" and px: "pgx_values (driver st)"
    using assms(2) by (simp_all add: store_inv_def pg_wf_def)
  note ex = scan_expired_leases [OF assms(3) db px]
  have rng: "is_int64 w" if "lease_of (tables s) u = Some (w, x)" for u w x
    using that db by (auto simp: lease_of_Some db_wf_def)
  have lost: "fst ` set ls = {u. (\<exists>w x. lease_of (tables s) u = Some (w, x) \<and> x < now s) \<and> u \<notin> set (locked_leases s)}"
  proof (intro set_eqI iffI)
    fix u assume "u \<in> fst ` set ls"
    then obtain w where "(u, w) \<in> set ls" by auto
    with ex(2) show "u \<in> {u. (\<exists>w x. lease_of (tables s) u = Some (w, x) \<and> x < now s) \<and> u \<notin> set (locked_leases s)}" by auto
  next
    fix u assume "u \<in> {u. (\<exists>w x. lease_of (tables s) u = Some (w, x) \<and> x < now s) \<and> u \<notin> set (locked_leases s)}"
    then obtain w x where l: "lease_of (tables s) u = Some (w, x)" "x < now s" "u \<notin> set (locked_leases s)" by auto
    then have "(u, uint64_of_int64 w) \<in> set ls" using ex(2) rng int64_of_uint64_of_int64 by auto
    then show "u \<in> fst ` set ls" by force
  qed
  obtain s' where s': "RecoverExpiredLeases st s = (Inr (length ls), s')"
    using free_RecoverExpiredLeases [OF assms] by blast
  have "abs_db (tables s') = bulk_lose (fst ` set ls) (abs_db (tables s))"
    using tx_result_Inr [OF conjunct2 [OF RecoverExpiredLeases_effect [OF s' wf px]]] assms(3) by (auto split: if_splits)
  note eff = abs_db_of [OF this]
  have "length ls = card (fst ` set ls)" using ex(1) distinct_card by (metis length_map set_map)
  moreover have "store_inv st s'" using store_inv_run_op [OF assms(2), of OpRecoverExpired] s' by simp
  moreover have "history (tables s') u = history (tables s) u @ (if u \<in> fst ` set ls then [StateWorkerLost, StateQueued] else [])"
      "lease_of (tables s') u = (if u \<in> fst ` set ls then None else lease_of (tables s) u)" for u
    using eff by (simp_all add: bulk_lose_def bulk_def abs_db_proj)
  ultimately show ?thesis using s' unfolding lost Let_def by auto
qed

definition demo_late :: pg where
  "demo_late = (demo_run to_running)\<lparr>now := 30000001\<rparr>"

theorem RecoverExpiredLeases_witness:
  "\<exists>s'. RecoverExpiredLeases demo_store demo_late = (Inr 1, s') \<and> lease_of (tables s') 7 = None"
proof -
  have f: "faults demo_late = []" and l: "lease_of (tables demo_late) 7 = Some (5, 30000000)"
    and sc: "collectE (scan_expired (driver demo_store))
      (sql_select_expired_leases (locked_leases demo_late) (now demo_late) (tables demo_late)) = Inr [(7, 5)]"
    and lk: "locked_leases demo_late = []" "now demo_late = 30000001" by code_simp+
  have "now (demo_run to_running) = 0" by code_simp
  then have "store_inv demo_store demo_late"
    using demo_running_inv by (fastforce simp: demo_late_def store_inv_def pg_wf_def rows_before_def)
  from RecoverExpiredLeases_complete [OF f this sc] l lk show ?thesis by (auto simp: Let_def)
qed



section \<open>Rows the driver cannot scan\<close>

text \<open>
  C36: A single task without an input or output URI blocks scheduling: while it is among the rows
  selected for claiming, and the driver does not scan \<open>NULL\<close> into a string, \<open>ClaimQueued\<close> returns a
  scan error and claims nothing at all.
\<close>

theorem null_uri_blocks_claiming:
  assumes "faults s = []" and "sql_claim_queued (locked_tasks s) n (tables s) = Inr rows" and "r \<in> set rows"
    and "t_input_uri r = None \<or> t_output_uri r = None" and "scan_text (driver st) None = Inl e"
  shows "\<exists>e'. ClaimQueued st sid n s = (Inl (Wrap ''claim queued: scan'' e'), s)"
proof -
  have "\<exists>e. scan_task (driver st) r = Inl e"
    using assms(4,5) by (auto simp: scan_task_def split: sum.splits)
  then obtain e' where e': "collectE (scan_task (driver st)) rows = Inl e'"
    using collectE_Inl [OF assms(3)] by blast
  have "ClaimQueued st sid n s = (Inl (Wrap ''claim queued: scan'' e'), s)"
    unfolding ClaimQueued_def
    by (rule free_tx_error [OF assms(1)])
      (use assms(1,2) e' in \<open>simp add: bindE_def wrapE_def free_db liftE_def\<close>)
  then show ?thesis by blast
qed

definition demo_null :: pg where
  "demo_null = submit demo_px ((demo_task 3 1)\<lparr>t_input_uri := None\<rparr>) (demo_run [])"

theorem null_uri_witness:
  "\<exists>e'. ClaimQueued demo_store 9 2 demo_null = (Inl (Wrap ''claim queued: scan'' e'), demo_null)"
proof -
  have f: "faults demo_null = []"
    and c: "sql_claim_queued (locked_tasks demo_null) 2 (tables demo_null) =
      Inr [(demo_task 3 1)\<lparr>t_input_uri := None\<rparr>, demo_task 7 2]"
    and s: "scan_text (driver demo_store) None = Inl (Failure ''cannot scan NULL into *string'')" by code_simp+
  show ?thesis by (rule null_uri_blocks_claiming [OF f c _ _ s, of "(demo_task 3 1)\<lparr>t_input_uri := None\<rparr>"]) simp_all
qed

text \<open>
  C37: A worker id is stored as its two's complement \<open>BIGINT\<close>, and \<open>RecoverExpiredLeases\<close> reads it back
  into a \<open>uint64\<close>: when a worker with an id of \<open>2 ^ 63\<close> or more lets its lease expire and the driver
  does not scan a negative number into a \<open>uint64\<close>, recovery fails as a whole, for every lease.
\<close>

theorem high_worker_id_blocks_recovery:
  assumes "faults s = []" and "db_wf (tables s)" and "lease_of (tables s) t = Some (int64_of_uint64 w, x)"
    and "x < now s" and "t \<notin> set (locked_leases s)" and "2 ^ 63 \<le> uint w"
    and "\<forall>i < 0. \<exists>e. scan_uint64 (driver st) i = Inl e"
  shows "\<exists>e'. RecoverExpiredLeases st s = (Inl (Wrap ''recover expired leases: scan'' e'), s)"
proof -
  let ?rows = "sql_select_expired_leases (locked_leases s) (now s) (tables s)"
  obtain l where "l \<in> set (lease_table (tables s))" "l_task_id l = t" "l_worker_id l = int64_of_uint64 w" "l_expires_at l = x"
    using assms(3) by (auto simp: lease_of_Some [OF assms(2)])
  then have row: "(t, int64_of_uint64 w) \<in> set ?rows"
    using assms(4,5) by (force simp: sql_select_expired_leases_def)
  have "int64_of_uint64 w < 0"
  proof (rule ccontr)
    assume "\<not> int64_of_uint64 w < 0"
    moreover have "uint w = int64_of_uint64 w mod 2 ^ 64"
      using uint64_of_int64_of_uint64 [of w] uint_word_of_int [of "int64_of_uint64 w", where ?'a = 64]
      by (simp add: uint64_of_int64_def)
    moreover have "int64_of_uint64 w < 2 ^ 63" using is_int64_of_uint64 [of w] by (simp add: is_int64_def)
    ultimately show False using assms(6) by (simp add: mod_pos_pos_trivial)
  qed
  with assms(7) obtain e where "scan_expired (driver st) (t, int64_of_uint64 w) = Inl e"
    by (fastforce simp: scan_expired_def)
  then obtain e' where e': "collectE (scan_expired (driver st)) ?rows = Inl e'"
    using collectE_Inl [OF row] by blast
  have "RecoverExpiredLeases st s = (Inl (Wrap ''recover expired leases: scan'' e'), s)"
    unfolding RecoverExpiredLeases_def
    by (rule free_tx_error [OF assms(1)]) (use assms(1) e' in \<open>simp add: bindE_def wrapE_def free_db liftE_def\<close>)
  then show ?thesis by blast
qed

definition demo_high :: pg where
  "demo_high = (demo_run [OpClaimQueued 9 1, OpMarkAssigned 7 18446744073709551615])\<lparr>now := 30000001\<rparr>"

theorem high_worker_id_witness:
  "\<exists>e'. RecoverExpiredLeases demo_store demo_high = (Inl (Wrap ''recover expired leases: scan'' e'), demo_high)"
proof -
  have f: "faults demo_high = []" "locked_leases demo_high = []" "now demo_high = 30000001"
    and l: "lease_of (tables demo_high) 7 = Some (int64_of_uint64 18446744073709551615, 30000000)"
    by code_simp+
  have u: "2 ^ 63 \<le> uint (18446744073709551615 :: uint64)" by simp
  have "store_inv demo_store (demo_run [OpClaimQueued 9 1, OpMarkAssigned 7 18446744073709551615])"
    by (rule store_reachable_inv [OF demo_run_reachable]) auto
  then have db: "db_wf (tables demo_high)" by (simp add: demo_high_def store_inv_def pg_wf_def)
  have neg: "\<forall>i < 0. \<exists>e. scan_uint64 (driver demo_store) i = Inl e"
    by (auto simp: demo_store_def NewPostgresStore_def demo_px_def)
  show ?thesis by (rule high_worker_id_blocks_recovery [OF f(1) db l _ _ u neg]) (simp_all add: f)
qed

end
