(* ===== verification/System.thy ===== *)
theory System
  imports Server SchedulerProps StoreProps
begin

text \<open>
  A worker together with the leader's server and the database: the calls of \<open>runTask\<close> and
  \<open>renewLoop\<close> go through the gRPC client to the handlers of \<open>SchedulerServer\<close> on the PostgreSQL store.
  The world adds to the scheduler's world what the worker sees: who leads, at every instant, what the
  network does with each call, and the host on which it executes tasks.
\<close>

section \<open>The world of a worker\<close>

text \<open>
  A call is delivered, or cannot be set up, or is lost on the way, or its reply is lost.
\<close>

datatype rpc_fate = Delivered | DialError error | RequestLost error | ResponseLost error

text \<open>What the election engine and the cluster answer at an instant.\<close>

record view =
  v_leader :: uint64
  v_isLeader :: bool
  v_addr :: "uint64 \<Rightarrow> string option"

record 'x sys =
  sy_world :: world
  sy_clock :: nat
  sy_view :: "nat \<Rightarrow> view"
  sy_net :: "rpc_fate list"
  sy_host :: "'x host"

definition observe :: "(view \<Rightarrow> 'a) \<Rightarrow> 'x sys \<Rightarrow> 'a \<times> 'x sys" where
  "observe f s = (f (sy_view s (sy_clock s)), s\<lparr>sy_clock := Suc (sy_clock s)\<rparr>)"

definition net_dial :: "string \<Rightarrow> ('x sys, unit) res" where
  "net_dial addr s =
     (case sy_net s of DialError e # fs \<Rightarrow> (Inl e, s\<lparr>sy_net := fs\<rparr>) | _ \<Rightarrow> (Inr (), s))"

definition net_call :: "(world, 'a) res \<Rightarrow> ('x sys, 'a) res" where
  "net_call handler s =
     (case sy_net s of
        [] \<Rightarrow> (case handler (sy_world s) of (r, w) \<Rightarrow> (r, s\<lparr>sy_world := w\<rparr>))
      | f # fs \<Rightarrow>
          (case f of
             Delivered \<Rightarrow> (case handler (sy_world s) of (r, w) \<Rightarrow> (r, s\<lparr>sy_world := w, sy_net := fs\<rparr>))
           | DialError e \<Rightarrow> (Inl e, s\<lparr>sy_net := fs\<rparr>)
           | RequestLost e \<Rightarrow> (Inl e, s\<lparr>sy_net := fs\<rparr>)
           | ResponseLost e \<Rightarrow> (Inl e, s\<lparr>sy_world := snd (handler (sy_world s)), sy_net := fs\<rparr>)))"

definition network :: "uuid_lib \<Rightarrow> postgres_store \<Rightarrow> 'x sys grpc_lib" where
  "network lib st =
     \<lparr>grpc_NewClient = net_dial,
      rpc_RenewLease = (\<lambda>addr req. net_call (server_RenewLease lib (postgres_iface st) req)),
      rpc_ReportResult = (\<lambda>addr req. net_call (server_ReportResult lib (postgres_iface st) req)),
      rpc_MarkRunning = (\<lambda>addr req. net_call (server_MarkRunning lib (postgres_iface st) req))\<rparr>"

definition on_host :: "('x host, 'a) res \<Rightarrow> ('x sys, 'a) res" where
  "on_host m s = (case m (sy_host s) of (r, h) \<Rightarrow> (r, s\<lparr>sy_host := h\<rparr>))"

definition system_deps :: "uuid_lib \<Rightarrow> postgres_store \<Rightarrow> runtime \<Rightarrow> 'x task_executor \<Rightarrow> 'x sys worker_deps" where
  "system_deps lib st rt ex =
     \<lparr>wk_CurrentLeader = observe v_leader, wk_IsLeader = observe v_isLeader,
      wk_MemberAddr = (\<lambda>i. observe (\<lambda>v. v_addr v i)),
      wk_RenewLease = client_RenewLease (network lib st),
      wk_MarkRunning = client_MarkRunning (network lib st),
      wk_ReportResult = client_ReportResult (network lib st),
      wk_Execute = (\<lambda>a. on_host (Execute rt ex a))\<rparr>"

section \<open>The handlers respect the store\<close>

text \<open>Every operation a worker can have run keeps the invariant and takes no lease away to another.\<close>

definition sys_ok :: "postgres_store \<Rightarrow> 'x sys \<Rightarrow> bool" where
  "sys_ok st s \<longleftrightarrow> world_inv st (sy_world s)"

definition sys_le :: "'x sys \<Rightarrow> 'x sys \<Rightarrow> bool" where
  "sys_le s s' \<longleftrightarrow> world_holders (sy_world s') \<subseteq>\<^sub>m world_holders (sy_world s)"

definition respectful :: "postgres_store \<Rightarrow> (world, 'a) res \<Rightarrow> bool" where
  "respectful st m \<longleftrightarrow> (\<forall>w r w'. world_inv st w \<longrightarrow> m w = (r, w') \<longrightarrow>
     world_inv st w' \<and> world_holders w' \<subseteq>\<^sub>m world_holders w)"

lemma respectful_worker_op:
  assumes "is_worker_op op" and "\<And>s. snd (m s) = run_op st op s"
  shows "respectful st (on_pg st m)"
  unfolding respectful_def
proof (intro allI impI)
  fix w r w' assume inv: "world_inv st w" and run: "on_pg st m w = (r, w')"
  show "world_inv st w' \<and> world_holders w' \<subseteq>\<^sub>m world_holders w"
  proof (rule on_pg_law [OF run inv, where P = "\<lambda>h. h \<subseteq>\<^sub>m world_holders w"])
    fix s s' assume s: "m s = (r, s')" "store_inv st s" "holders s \<subseteq>\<^sub>m world_holders w"
    then have s': "s' = run_op st op s" using assms(2) [of s] by simp
    have "op_ok op (tables s)" using assms(1) by (cases op) auto
    from store_inv_run_op [OF s(2) this] worker_op_holders [OF assms(1) s(2)] s(3) s'
    show "store_inv st s' \<and> holders s' \<subseteq>\<^sub>m world_holders w" by (auto intro: map_le_trans)
  qed
qed

lemma respectful_internalE: "respectful st m \<Longrightarrow> respectful st (internalE sh m)"
  unfolding respectful_def internalE_def by (auto split: prod.splits sum.splits)

lemma respectful_throwE: "respectful st (throwE e)"
  by (simp add: respectful_def throwE_def)

lemma respectful_handlers:
  "respectful st (server_RenewLease lib (postgres_iface st) rn)"
  "respectful st (server_MarkRunning lib (postgres_iface st) mr)"
  "respectful st (server_ReportResult lib (postgres_iface st) rr)"
proof -
  have ops: "respectful st (on_pg st (RenewLease st t w))" "respectful st (on_pg st (MarkRunning st t w))"
    "respectful st (on_pg st (MarkCompleted st t w))" "respectful st (on_pg st (MarkFailed st t w msg))" for t w msg
    by (rule respectful_worker_op [of "OpRenewLease t w"] respectful_worker_op [of "OpMarkRunning t w"]
      respectful_worker_op [of "OpMarkCompleted t w"] respectful_worker_op [of "OpMarkFailed t w msg"], simp, simp)+
  show "respectful st (server_RenewLease lib (postgres_iface st) rn)"
    "respectful st (server_MarkRunning lib (postgres_iface st) mr)"
    "respectful st (server_ReportResult lib (postgres_iface st) rr)"
    by (auto simp: server_RenewLease_def server_MarkRunning_def server_ReportResult_def postgres_iface_def
        intro!: respectful_internalE respectful_throwE ops split: sum.splits)
qed

lemma net_call_ok:
  assumes "respectful st m" and "sys_ok st s" and "net_call m s = (r, s')"
  shows "sys_ok st s' \<and> sys_le s s'"
proof -
  obtain r0 w where w: "m (sy_world s) = (r0, w)" by fastforce
  have "world_inv st w \<and> world_holders w \<subseteq>\<^sub>m world_holders (sy_world s)"
    using assms(1,2) w by (auto simp: respectful_def sys_ok_def)
  then show ?thesis using assms(2,3)
    by (auto simp: net_call_def sys_ok_def sys_le_def w split: list.splits rpc_fate.splits)
qed

lemma dial_then_ok:
  assumes "\<And>s r s'. sys_ok st s \<Longrightarrow> m s = (r, s') \<Longrightarrow> sys_ok st s' \<and> sys_le s s'"
    and "sys_ok st s" and "bindE (net_dial addr) (\<lambda>_. m) s = (r, s')"
  shows "sys_ok st s' \<and> sys_le s s'"
  using assms
  by (auto simp: bindE_def net_dial_def sys_ok_def sys_le_def split: list.splits rpc_fate.splits)

interpretation pgw: worker_env "system_deps lib st rt ex" "sys_ok st" sys_le for lib st rt ex
proof unfold_locales
  fix s s' u :: "'a sys" and r :: "error + unit"
  show "sys_le s s" by (simp add: sys_le_def)
  show "sys_le s s' \<Longrightarrow> sys_le s' u \<Longrightarrow> sys_le s u" by (auto simp: sys_le_def intro: map_le_trans)
  show "sys_ok st s' \<and> sys_le s s'" if "sys_ok st s" "wk_RenewLease (system_deps lib st rt ex) addr rn s = (r, s')" for addr rn
    using dial_then_ok [OF net_call_ok [OF respectful_handlers(1)] that(1)] that(2)
    by (simp add: system_deps_def network_def client_RenewLease_def)
  show "sys_ok st s' \<and> sys_le s s'" if "sys_ok st s" "wk_MarkRunning (system_deps lib st rt ex) addr mr s = (r, s')" for addr mr
    using dial_then_ok [OF net_call_ok [OF respectful_handlers(2)] that(1)] that(2)
    by (simp add: system_deps_def network_def client_MarkRunning_def)
  show "sys_ok st s' \<and> sys_le s s'" if "sys_ok st s" "wk_ReportResult (system_deps lib st rt ex) addr rr s = (r, s')" for addr rr
    using dial_then_ok [OF net_call_ok [OF respectful_handlers(3)] that(1)] that(2)
    by (simp add: system_deps_def network_def client_ReportResult_def)
qed (auto simp: system_deps_def observe_def on_host_def sys_ok_def sys_le_def split: prod.splits)

section \<open>The worker and the store\<close>


text \<open>Nothing interferes: no fault of the network or the database, no other session, a steady view.\<close>

definition undisturbed :: "'x sys \<Rightarrow> bool" where
  "undisturbed s \<longleftrightarrow> sy_net s = [] \<and> w_plan (sy_world s) = [] \<and> faults (w_pg (sy_world s)) = []"

definition steady :: "view \<Rightarrow> 'x sys \<Rightarrow> bool" where
  "steady v s \<longleftrightarrow> (\<forall>n. sy_view s n = v)"

definition led_from :: "view \<Rightarrow> string \<Rightarrow> bool" where
  "led_from v addr \<longleftrightarrow> v_leader v \<noteq> 0 \<and> \<not> v_isLeader v \<and> v_addr v (v_leader v) = Some addr"

definition with_pg :: "pg \<Rightarrow> 'x sys \<Rightarrow> 'x sys" where
  "with_pg p s = s\<lparr>sy_world := (sy_world s)\<lparr>w_pg := p\<rparr>\<rparr>"

lemma leaderAddr_steady:
  "steady v s \<Longrightarrow> led_from v addr \<Longrightarrow>
     leaderAddr (system_deps lib st rt ex) s = (Some addr, s\<lparr>sy_clock := sy_clock s + 3\<rparr>)"
  by (simp add: leaderAddr_def system_deps_def observe_def steady_def led_from_def)

lemma undisturbed_call:
  assumes "sy_net s = []" and "w_plan (sy_world s) = []" and "m (w_pg (sy_world s)) = (Inr (), p)"
  shows "bindE (net_dial addr) (\<lambda>_. net_call (internalE sh (on_pg st m))) s = (Inr (), with_pg p s)"
  using assms
  by (simp add: bindE_def net_dial_def net_call_def internalE_def on_pg_def meanwhile_def with_pg_def Let_def)

lemma undisturbed_MarkRunning:
  assumes "sy_net s = []" and "w_plan (sy_world s) = []" and "uuid_Parse lib (mr_TaskId req) = Inr t"
    and "MarkRunning st t (mr_WorkerId req) (w_pg (sy_world s)) = (Inr (), p)"
  shows "wk_MarkRunning (system_deps lib st rt ex) addr req s = (Inr (), with_pg p s)"
  using undisturbed_call [of s "MarkRunning st t (mr_WorkerId req)" p] assms
  by (simp add: system_deps_def client_MarkRunning_def network_def server_MarkRunning_def postgres_iface_def)

lemma undisturbed_ReportResult:
  assumes "sy_net s = []" and "w_plan (sy_world s) = []" and "uuid_Parse lib (rr_TaskId req) = Inr t"
    and "rr_Outcome req = SUCCESS \<and> MarkCompleted st t (rr_WorkerId req) (w_pg (sy_world s)) = (Inr (), p) \<or>
      rr_Outcome req = FAILED \<and> MarkFailed st t (rr_WorkerId req) (rr_Error req) (w_pg (sy_world s)) = (Inr (), p)"
  shows "wk_ReportResult (system_deps lib st rt ex) addr req s = (Inr (), with_pg p s)"
  using assms(4)
proof (elim disjE conjE, goal_cases)
  case 1
  from undisturbed_call [of s "MarkCompleted st t (rr_WorkerId req)" p] assms(1-3) 1 show ?case
    by (simp add: system_deps_def client_ReportResult_def network_def server_ReportResult_def postgres_iface_def)
next
  case 2
  from undisturbed_call [of s "MarkFailed st t (rr_WorkerId req) (rr_Error req)" p] assms(1-3) 2 show ?case
    by (simp add: system_deps_def client_ReportResult_def network_def server_ReportResult_def postgres_iface_def
        SUCCESS_def FAILED_def)
qed

text \<open>After \<open>MarkRunning\<close> has left the database \<open>p\<close>, the result \<open>x\<close> of the execution is reported, leaving \<open>p'\<close>.\<close>

definition reported ::
  "postgres_store \<Rightarrow> uuid \<Rightarrow> uint64 \<Rightarrow> (uuid \<Rightarrow> string) \<Rightarrow> error + unit \<Rightarrow> pg \<Rightarrow> run_end \<Rightarrow> pg \<Rightarrow> bool" where
  "reported st t w show_uuid x p r p' \<longleftrightarrow>
     (case x of
        Inr _ \<Rightarrow> (\<forall>q. MarkCompleted st t w p = (Inr (), q) \<longrightarrow> r = TaskCompleted \<and> p' = q)
      | Inl err \<Rightarrow> (\<forall>q. MarkFailed st t w (error_text show_uuid err) p = (Inr (), q) \<longrightarrow>
          r = FailureReported err None \<and> p' = q))"

lemma runTask_undisturbed:
  assumes und: "undisturbed s" and std: "steady v s" "led_from v addr" and t: "uuid_Parse lib (as_TaskID a) = Inr t"
    and inv: "store_inv st (w_pg (sy_world s))" and own: "owns (tables (w_pg (sy_world s))) t (wk_workerID e)"
    and ex: "Execute rt ex a (sy_host s) = (x, h)"
    and run: "runTask (system_deps lib st rt ex) show_uuid e a s = (r, s')"
  obtains p where "MarkRunning st t (wk_workerID e) (w_pg (sy_world s)) = (Inr (), p)" "faults p = []"
    "reported st t (wk_workerID e) show_uuid x p r (w_pg (sy_world s'))"
proof -
  let ?d = "system_deps lib st rt ex" and ?w = "wk_workerID e"
  have net: "sy_net s = []" "w_plan (sy_world s) = []" "faults (w_pg (sy_world s)) = []"
    using und by (simp_all add: undisturbed_def)
  obtain p where p: "MarkRunning st t ?w (w_pg (sy_world s)) = (Inr (), p)" using owner_runs [OF net(3) inv own] by blast
  have fp: "faults p = []"
    using keepsED [OF faultless_MarkRunning _ p] net(3) by (simp add: faultless_def)
  define s1 where "s1 = s\<lparr>sy_clock := sy_clock s + 3\<rparr>"
  define s2 where "s2 = with_pg p s1"
  define s3 where "s3 = s2\<lparr>sy_host := h\<rparr>"
  define s4 where "s4 = s3\<lparr>sy_clock := sy_clock s3 + 3\<rparr>"
  have 1: "leaderAddr ?d s = (Some addr, s1)" unfolding s1_def by (rule leaderAddr_steady [OF std])
  have 2: "wk_MarkRunning ?d addr \<lparr>mr_TaskId = as_TaskID a, mr_WorkerId = ?w\<rparr> s1 = (Inr (), s2)"
    unfolding s2_def by (rule undisturbed_MarkRunning) (use net t p in \<open>simp_all add: s1_def\<close>)
  have 3: "wk_Execute ?d a s2 = (x, s3)"
    using ex by (simp add: system_deps_def on_host_def s3_def s2_def with_pg_def s1_def)
  have "steady v s3" using std(1) by (simp add: steady_def s3_def s2_def with_pg_def s1_def)
  then have 4: "leaderAddr ?d s3 = (Some addr, s4)" unfolding s4_def by (rule leaderAddr_steady [OF _ std(2)])
  have pg4: "w_pg (sy_world s4) = p" "sy_net s4 = []" "w_plan (sy_world s4) = []"
    using net by (simp_all add: s4_def s3_def s2_def with_pg_def s1_def)
  show ?thesis
  proof (rule that [OF p fp], cases x)
    case (Inl err)
    have "wk_ReportResult ?d addr \<lparr>rr_TaskId = as_TaskID a, rr_WorkerId = ?w, rr_Outcome = FAILED,
        rr_Error = error_text show_uuid err\<rparr> s4 = (Inr (), with_pg q s4)"
      if "MarkFailed st t ?w (error_text show_uuid err) p = (Inr (), q)" for q
      by (rule undisturbed_ReportResult) (use that t pg4 in auto)
    with Inl run 1 2 3 4 show "reported st t ?w show_uuid x p r (w_pg (sy_world s'))"
      by (auto simp: reported_def runTask_def with_pg_def)
  next
    case (Inr u)
    have "wk_ReportResult ?d addr \<lparr>rr_TaskId = as_TaskID a, rr_WorkerId = ?w, rr_Outcome = SUCCESS,
        rr_Error = ''''\<rparr> s4 = (Inr (), with_pg q s4)"
      if "MarkCompleted st t ?w p = (Inr (), q)" for q
      by (rule undisturbed_ReportResult) (use that t pg4 in auto)
    with Inr run 1 2 3 4 show "reported st t ?w show_uuid x p r (w_pg (sy_world s'))"
      by (auto simp: reported_def runTask_def with_pg_def)
  qed
qed

text \<open>What \<open>runTask\<close> leaves of a task \<open>t\<close> that may be tried \<open>m\<close> times, from the database \<open>p\<close> to \<open>q\<close>.\<close>

definition settled :: "error + unit \<Rightarrow> uuid \<Rightarrow> int \<Rightarrow> run_end \<Rightarrow> pg \<Rightarrow> pg \<Rightarrow> bool" where
  "settled x t m r p q \<longleftrightarrow> lease_of (tables q) t = None \<and>
    (case x of
       Inr _ \<Rightarrow> r = TaskCompleted \<and> history (tables q) t = history (tables p) t @ [StateRunning, StateCompleted]
     | Inl err \<Rightarrow> r = FailureReported err None \<and>
         history (tables q) t = history (tables p) t @ [StateRunning, StateFailed] @
           (if failed_count (tables p) t + 1 < m then [StateQueued] else []))"

lemma runTask_settled:
  assumes "undisturbed s" and "steady v s" and "led_from v addr" and "uuid_Parse lib (as_TaskID a) = Inr t"
    and "store_inv st (w_pg (sy_world s))" and "owns (tables (w_pg (sy_world s))) t (wk_workerID e)"
    and "max_of (tables (w_pg (sy_world s))) t = Some m"
    and "runTask (system_deps lib st rt ex) show_uuid e a s = (r, s')"
  shows "settled (fst (Execute rt ex a (sy_host s))) t m r (w_pg (sy_world s)) (w_pg (sy_world s'))"
proof -
  let ?p = "w_pg (sy_world s)"
  obtain x h where ex: "Execute rt ex a (sy_host s) = (x, h)" by fastforce
  obtain p where p: "MarkRunning st t (wk_workerID e) ?p = (Inr (), p)" "faults p = []"
    and fin: "reported st t (wk_workerID e) show_uuid x p r (w_pg (sy_world s'))"
    by (rule runTask_undisturbed [OF assms(1-6) ex assms(8)])
  have "faults ?p = []" using assms(1) by (simp add: undisturbed_def)
  from owner_runs [OF this assms(5,6)] p(1) have inv: "store_inv st p"
    and hist: "history (tables p) t = history (tables ?p) t @ [StateRunning]"
    and lease: "\<forall>u. lease_of (tables p) u = lease_of (tables ?p) u" and mx: "max_of (tables p) t = Some m"
    using assms(7) by auto
  have own: "owns (tables p) t (wk_workerID e)" using assms(6) lease by (simp add: owns_def)
  have last: "sql_latest_status t (tables p) = Some StateRunning" by (simp add: sql_latest_status_history hist)
  have cnt: "failed_count (tables p) t = failed_count (tables ?p) t" by (simp add: failed_count_history hist)
  show ?thesis
  proof (cases x)
    case (Inr u)
    with owner_completes [OF p(2) inv own last] fin ex hist show ?thesis by (auto simp: settled_def reported_def)
  next
    case (Inl err)
    with owner_fails [OF p(2) inv mx own, of "error_text show_uuid err"] fin ex hist cnt show ?thesis by (auto simp: settled_def reported_def)
  qed
qed

text \<open>
  C7: Undisturbed, a worker that holds the lease of a task brings it to an end: when the execution
  succeeds the task is recorded as running and completed, when it fails as running and failed, and
  queued again exactly if it may be tried once more; the lease is released in both cases.
\<close>

theorem runTask_settles_task:
  assumes "undisturbed s" and "steady v s" and "led_from v addr" and "uuid_Parse lib (as_TaskID a) = Inr t"
    and "store_inv st (w_pg (sy_world s))" and "owns (tables (w_pg (sy_world s))) t (wk_workerID e)"
    and "max_of (tables (w_pg (sy_world s))) t = Some m"
    and "runTask (system_deps lib st rt ex) show_uuid e a s = (r, s')"
  shows "settled (fst (Execute rt ex a (sy_host s))) t m r (w_pg (sy_world s)) (w_pg (sy_world s'))"
  by (rule runTask_settled [OF assms])


text \<open>
  C35: A worker that has been elected leader by the time its task is done does not report the result,
  neither to itself nor to anybody: the task stays recorded as running, under a lease nobody renews,
  although it has been executed successfully.
\<close>

theorem elected_worker_drops_result:
  assumes "undisturbed s" and "\<forall>n < 3. sy_view s (sy_clock s + n) = v" and "led_from v addr"
    and "\<forall>n \<ge> 3. v_isLeader (sy_view s (sy_clock s + n)) \<and> v_leader (sy_view s (sy_clock s + n)) \<noteq> 0"
    and "uuid_Parse lib (as_TaskID a) = Inr t" and "store_inv st (w_pg (sy_world s))"
    and "owns (tables (w_pg (sy_world s))) t (wk_workerID e)" and "fst (Execute rt ex a (sy_host s)) = Inr u"
    and "runTask (system_deps lib st rt ex) show_uuid e a s = (r, s')"
    and "renewLoop (system_deps lib st rt ex) e (as_TaskID a) evs s' = (r', s2)"
  shows "r = ResultUnreported \<and> sy_world s2 = sy_world s' \<and>
    history (tables (w_pg (sy_world s'))) t = history (tables (w_pg (sy_world s))) t @ [StateRunning] \<and>
    lease_of (tables (w_pg (sy_world s'))) t = lease_of (tables (w_pg (sy_world s))) t"
proof -
  let ?d = "system_deps lib st rt ex" and ?w = "wk_workerID e"
  have net: "sy_net s = []" "w_plan (sy_world s) = []" "faults (w_pg (sy_world s)) = []"
    using assms(1) by (simp_all add: undisturbed_def)
  obtain p where p: "MarkRunning st t ?w (w_pg (sy_world s)) = (Inr (), p)"
      "history (tables p) t = history (tables (w_pg (sy_world s))) t @ [StateRunning]"
      "lease_of (tables p) t = lease_of (tables (w_pg (sy_world s))) t"
    using owner_runs [OF net(3) assms(6,7)] by auto
  obtain h where ex: "Execute rt ex a (sy_host s) = (Inr u, h)" using assms(8) by (metis prod.collapse)
  define s1 where "s1 = s\<lparr>sy_clock := sy_clock s + 3\<rparr>"
  have 1: "leaderAddr ?d s = (Some addr, s1)"
    using assms(2) [rule_format, of 0] assms(2) [rule_format, of 1] assms(2) [rule_format, of 2] assms(3)
    by (simp add: leaderAddr_def system_deps_def observe_def led_from_def s1_def numeral_2_eq_2 numeral_3_eq_3)
  have 2: "wk_MarkRunning ?d addr \<lparr>mr_TaskId = as_TaskID a, mr_WorkerId = ?w\<rparr> s1 = (Inr (), with_pg p s1)"
    by (rule undisturbed_MarkRunning) (use net assms(5) p in \<open>simp_all add: s1_def\<close>)
  have 3: "wk_Execute ?d a (with_pg p s1) = (Inr u, (with_pg p s1)\<lparr>sy_host := h\<rparr>)"
    using ex by (simp add: system_deps_def on_host_def with_pg_def s1_def)
  have lead: "leaderAddr ?d x = (None, x\<lparr>sy_clock := sy_clock x + 2\<rparr>)"
    if "sy_view x = sy_view s" "sy_clock x \<ge> sy_clock s + 3" for x :: "'a sys"
    using assms(4) [rule_format, of "sy_clock x - sy_clock s"] assms(4) [rule_format, of "Suc (sy_clock x) - sy_clock s"] that
    by (simp add: leaderAddr_def system_deps_def observe_def)
  have s': "r = ResultUnreported" "sy_world s' = sy_world (with_pg p s1)" "sy_view s' = sy_view s" "sy_clock s' \<ge> sy_clock s + 3"
    using assms(9) 1 2 3 lead [of "(with_pg p s1)\<lparr>sy_host := h\<rparr>"]
    by (auto simp: runTask_def with_pg_def s1_def)
  have "sy_world (snd (renew_select ?d e (as_TaskID a) evs x)) = sy_world x"
    if "sy_view x = sy_view s" "sy_clock x \<ge> sy_clock s + 3" for x :: "'a sys"
    using that
  proof (induction evs arbitrary: x)
    case (Cons ev evs)
    show ?case
    proof (cases ev)
      case Tick
      then show ?thesis using Cons lead [OF Cons.prems] by (simp add: renew_once_def)
    qed simp
  qed simp
  from this [OF s'(3,4)] assms(10) have "sy_world s2 = sy_world s'" by (auto simp: renewLoop_def split: if_splits)
  with s' p show ?thesis by (simp add: with_pg_def s1_def)
qed

section \<open>Examples\<close>

definition demo_lib :: uuid_lib where
  "demo_lib = \<lparr>uuid_Parse = (\<lambda>s. if s = ''t'' then Inr 7 else Inl (Failure ''invalid UUID'')), uuid_String = (\<lambda>_. ''t'')\<rparr>"

definition demo_view :: "bool \<Rightarrow> view" where
  "demo_view self = \<lparr>v_leader = 9, v_isLeader = self, v_addr = (\<lambda>_. Some ''n9:1'')\<rparr>"

definition demo_sys :: "(nat \<Rightarrow> view) \<Rightarrow> (string \<Rightarrow> string \<Rightarrow> string option) sys" where
  "demo_sys views = \<lparr>sy_world = \<lparr>w_pg = demo_run to_running, w_plan = [], w_rpc = [], w_sent = []\<rparr>, sy_clock = 0,
     sy_view = views, sy_net = [], sy_host = demo_host\<rparr>"

abbreviation "worker_demo_deps \<equiv> system_deps demo_lib demo_store demo_rt demo_executor"
abbreviation "demo_worker \<equiv> NewWorker 5 30 5"
abbreviation "demo_job \<equiv> demo_assignment ''s3://b/out.txt''"

lemma demo_owner: "owns (tables (demo_run to_running)) 7 5"
proof -
  have "sql_check_lease_owner 7 (int64_of_uint64 5) (tables (demo_run to_running))" by code_simp
  moreover have "pg_wf (driver demo_store) (demo_run to_running)"
    using demo_running_inv by (simp add: store_inv_def)
  ultimately show ?thesis by (simp add: owns_iff)
qed

lemma demo_undisturbed: "undisturbed (demo_sys views)"
proof -
  have "faults (demo_run to_running) = []" by code_simp
  then show ?thesis by (simp add: undisturbed_def demo_sys_def)
qed


theorem runTask_settles_witness:
  "fst (runTask worker_demo_deps (\<lambda>_. ''t'') demo_worker demo_job (demo_sys (\<lambda>_. demo_view False))) = TaskCompleted \<and>
   history (tables (w_pg (sy_world (snd (runTask worker_demo_deps (\<lambda>_. ''t'') demo_worker demo_job (demo_sys (\<lambda>_. demo_view False))))))) 7
     = [StateQueued, StateScheduling, StateAssigned, StateRunning, StateRunning, StateCompleted]"
proof -
  have m: "max_of (tables (demo_run to_running)) 7 = Some 2" by code_simp
  have x: "fst (Execute demo_rt demo_executor demo_job (sy_host (demo_sys (\<lambda>_. demo_view False)))) = Inr ()"
    unfolding demo_sys_def by (simp add: demo_Execute)
  have "runTask worker_demo_deps (\<lambda>_. ''t'') demo_worker demo_job (demo_sys (\<lambda>_. demo_view False)) =
    (fst (runTask worker_demo_deps (\<lambda>_. ''t'') demo_worker demo_job (demo_sys (\<lambda>_. demo_view False))),
     snd (runTask worker_demo_deps (\<lambda>_. ''t'') demo_worker demo_job (demo_sys (\<lambda>_. demo_view False))))" by simp
  from runTask_settles_task [OF demo_undisturbed _ _ _ _ _ _ this, of "demo_view False" "''n9:1''" 7 2] x
  show ?thesis
    by (simp add: demo_sys_def m demo_running_inv demo_owner NewWorker_def demo_lib_def demo_assignment_def steady_def
        led_from_def demo_view_def demo_running settled_def)
qed

theorem elected_worker_witness:
  "fst (runTask worker_demo_deps (\<lambda>_. ''t'') demo_worker demo_job (demo_sys (\<lambda>n. demo_view (n \<ge> 3)))) = ResultUnreported"
proof -
  have x: "fst (Execute demo_rt demo_executor demo_job (sy_host (demo_sys (\<lambda>n. demo_view (n \<ge> 3))))) = Inr ()"
    unfolding demo_sys_def by (simp add: demo_Execute)
  have "runTask worker_demo_deps (\<lambda>_. ''t'') demo_worker demo_job (demo_sys (\<lambda>n. demo_view (n \<ge> 3))) =
    (fst (runTask worker_demo_deps (\<lambda>_. ''t'') demo_worker demo_job (demo_sys (\<lambda>n. demo_view (n \<ge> 3)))),
     snd (runTask worker_demo_deps (\<lambda>_. ''t'') demo_worker demo_job (demo_sys (\<lambda>n. demo_view (n \<ge> 3)))))" by simp
  from elected_worker_drops_result [OF demo_undisturbed _ _ _ _ _ _ x this surjective_pairing, of "demo_view False" "''n9:1''" 7]
  show ?thesis
    by (simp add: demo_sys_def demo_running_inv demo_owner NewWorker_def demo_lib_def demo_assignment_def
        led_from_def demo_view_def)
qed

definition claimed_sys :: "(string \<Rightarrow> string \<Rightarrow> string option) sys" where
  "claimed_sys = \<lparr>sy_world = demo_world demo_claimed [] [], sy_clock = 0, sy_view = (\<lambda>_. demo_view False), sy_net = [],
     sy_host = demo_host\<rparr>"

lemma demo_pick: "snd (fst (Pick demo_members NewRoundRobin))"
  by code_simp


end
