(* ===== verification/ElectionState.thy ===== *)
theory ElectionState
  imports Prelude
begin

text \<open>
  \<open>election/state.go\<close>: the leader, the term and the phase of a node, and the methods that read and
  change them. Every method holds the mutex from its first to its last line, so each is one atomic
  function here. The main fact is that \<open>SetLeader\<close> joins: what a node believes after a number of
  announcements is the greatest of them, whatever their order.
\<close>

section \<open>State\<close>

datatype phase = PhaseIdle | PhaseElecting | PhaseWaitingCoordinator | PhaseLeader

record estate =
  leaderID :: uint64
  eterm :: uint64
  ephase :: phase

definition NewState :: estate where
  "NewState = \<lparr>leaderID = 0, eterm = 0, ephase = PhaseIdle\<rparr>"

definition IsLeader :: "uint64 \<Rightarrow> estate \<Rightarrow> bool" where
  "IsLeader selfID s \<longleftrightarrow> leaderID s = selfID"

definition CurrentLeader :: "estate \<Rightarrow> uint64" where
  "CurrentLeader s = leaderID s"

definition Term :: "estate \<Rightarrow> uint64" where
  "Term s = eterm s"

definition Phase :: "estate \<Rightarrow> phase" where
  "Phase s = ephase s"

definition UpdateTerm :: "uint64 \<Rightarrow> estate \<Rightarrow> estate" where
  "UpdateTerm t s =
     (if t > eterm s then s\<lparr>eterm := t, leaderID := 0, ephase := PhaseIdle\<rparr> else s)"

definition BeginElection :: "estate \<Rightarrow> (uint64 \<times> bool) \<times> estate" where
  "BeginElection s =
     (case ephase s of
        PhaseElecting \<Rightarrow> ((0, False), s)
      | PhaseWaitingCoordinator \<Rightarrow> ((0, False), s)
      | _ \<Rightarrow> ((eterm s + 1, True), s\<lparr>leaderID := 0, eterm := eterm s + 1, ephase := PhaseElecting\<rparr>))"

definition EnterWaitingCoordinator :: "uint64 \<Rightarrow> estate \<Rightarrow> bool \<times> estate" where
  "EnterWaitingCoordinator t s =
     (if eterm s \<noteq> t then (False, s)
      else if ephase s \<noteq> PhaseElecting then (False, s)
      else (True, s\<lparr>ephase := PhaseWaitingCoordinator\<rparr>))"

definition SetLeader :: "uint64 \<Rightarrow> uint64 \<Rightarrow> estate \<Rightarrow> bool \<times> estate" where
  "SetLeader l t s =
     (if t < eterm s then (False, s)
      else if t = eterm s \<and> leaderID s \<noteq> 0 \<and> l < leaderID s then (False, s)
      else (True, s\<lparr>eterm := t, leaderID := l, ephase := PhaseLeader\<rparr>))"

definition ClearLeaderIfMatches :: "uint64 \<Rightarrow> estate \<Rightarrow> bool \<times> estate" where
  "ClearLeaderIfMatches l s =
     (if leaderID s \<noteq> l then (False, s)
      else (True, s\<lparr>leaderID := 0, ephase := if ephase s = PhaseLeader then PhaseIdle else ephase s\<rparr>))"

definition ResetElection :: "uint64 \<Rightarrow> estate \<Rightarrow> bool \<times> estate" where
  "ResetElection t s =
     (if eterm s \<noteq> t then (False, s)
      else case ephase s of
        PhaseElecting \<Rightarrow> (True, s\<lparr>ephase := PhaseIdle\<rparr>)
      | PhaseWaitingCoordinator \<Rightarrow> (True, s\<lparr>ephase := PhaseIdle\<rparr>)
      | _ \<Rightarrow> (False, s))"

definition InElection :: "estate \<Rightarrow> bool" where
  "InElection s \<longleftrightarrow> ephase s = PhaseElecting \<or> ephase s = PhaseWaitingCoordinator"

lemmas state_defs = UpdateTerm_def BeginElection_def EnterWaitingCoordinator_def SetLeader_def
  ClearLeaderIfMatches_def ResetElection_def

section \<open>All changes of the state\<close>

datatype state_call =
    CallUpdateTerm uint64
  | CallBeginElection
  | CallEnterWaiting uint64
  | CallSetLeader uint64 uint64
  | CallClearLeader uint64
  | CallResetElection uint64

fun state_step :: "state_call \<Rightarrow> estate \<Rightarrow> estate" where
  "state_step (CallUpdateTerm t) s = UpdateTerm t s"
| "state_step CallBeginElection s = snd (BeginElection s)"
| "state_step (CallEnterWaiting t) s = snd (EnterWaitingCoordinator t s)"
| "state_step (CallSetLeader l t) s = snd (SetLeader l t s)"
| "state_step (CallClearLeader l) s = snd (ClearLeaderIfMatches l s)"
| "state_step (CallResetElection t) s = snd (ResetElection t s)"

text \<open>A node that knows a leader is in no election.\<close>

definition state_inv :: "estate \<Rightarrow> bool" where
  "state_inv s \<longleftrightarrow> (leaderID s \<noteq> 0 \<longrightarrow> ephase s = PhaseLeader)"

lemma state_inv_New: "state_inv NewState"
  by (simp add: state_inv_def NewState_def)

lemma state_inv_step: "state_inv s \<Longrightarrow> state_inv (state_step c s)"
  by (cases c) (auto simp: state_inv_def state_defs split: phase.splits if_splits)

lemma state_inv_steps: "state_inv s \<Longrightarrow> state_inv (fold state_step cs s)"
  by (induction cs arbitrary: s) (simp_all add: state_inv_step)

text \<open>
  The term never goes back, except where \<open>s.term++\<close> wraps: starting an election when the term is
  the largest 64 bit number.
\<close>

definition wraps :: "state_call \<Rightarrow> estate \<Rightarrow> bool" where
  "wraps c s \<longleftrightarrow> c = CallBeginElection \<and> eterm s = - 1 \<and> \<not> InElection s"

lemma inc_greater: "(t :: uint64) \<noteq> - 1 \<Longrightarrow> t < t + 1"
  using inc_less_eq_self_iff_eq [of t] by (simp add: not_le [symmetric])

lemma state_step_term: "\<not> wraps c s \<Longrightarrow> eterm s \<le> eterm (state_step c s)"
  using inc_greater [of "eterm s"]
  by (cases c) (auto simp: state_defs wraps_def InElection_def split: phase.splits)

section \<open>Announcements\<close>

text \<open>
  A register that holds a key and joins announcements into it, each of which has a key too.
  However the announcements are ordered and repeated, the key becomes the greatest one.
\<close>

locale joining_register =
  fixes key :: "'s \<Rightarrow> 'k::linorder"
    and weight :: "'a \<Rightarrow> 'k"
    and receive :: "'a \<Rightarrow> 's \<Rightarrow> 's"
  assumes receive_max: "key (receive a s) = max (key s) (weight a)"
begin

lemma fold_receive: "key (fold receive as s) = Max (insert (key s) (weight ` set as))"
proof (induction as arbitrary: s)
  case Nil
  then show ?case by simp
next
  case (Cons a as)
  have "Max (insert (max (key s) (weight a)) (weight ` set as)) =
      Max (insert (key s) (insert (weight a) (weight ` set as)))"
    by (cases "weight ` set as = {}") (simp_all add: max.assoc)
  with Cons show ?case by (simp add: receive_max)
qed

lemma fold_receive_agree:
  "key s = key s' \<Longrightarrow> set as = set bs \<Longrightarrow> key (fold receive as s) = key (fold receive bs s')"
  by (simp add: fold_receive)

lemma fold_receive_mono: "key s \<le> key (fold receive as s)"
  by (simp add: fold_receive)

lemma fold_receive_ge: "a \<in> set as \<Longrightarrow> weight a \<le> key (fold receive as s)"
  by (simp add: fold_receive)

lemma fold_receive_top:
  assumes "a \<in> set as" and "\<And>b. b \<in> set as \<Longrightarrow> weight b \<le> weight a" and "key s \<le> weight a"
  shows "key (fold receive as s) = weight a"
  using assms unfolding fold_receive by (intro Max_eqI) auto

end

definition leader_key :: "estate \<Rightarrow> uint64 \<times> uint64" where
  "leader_key s = (eterm s, leaderID s)"

lemma SetLeader_key: "leader_key (snd (SetLeader l t s)) = max (leader_key s) (t, l)"
proof -
  have "leaderID s = 0 \<Longrightarrow> leaderID s \<le> l" by simp
  then show ?thesis
    by (auto simp: SetLeader_def leader_key_def max_def not_less not_le less_prod_simp less_eq_prod_simp
        intro: antisym)
qed

text \<open>An announcement is a pair of a leader and a term.\<close>

definition announced :: "uint64 \<times> uint64 \<Rightarrow> estate \<Rightarrow> estate" where
  "announced a s = snd (SetLeader (fst a) (snd a) s)"

interpretation leadership: joining_register leader_key "\<lambda>a. (snd a, fst a)" announced
  by unfold_locales (simp add: announced_def SetLeader_key)

lemma SetLeader_accepts: "fst (SetLeader l t s) \<longleftrightarrow> leader_key s \<le> (t, l)"
proof -
  have "leaderID s = 0 \<Longrightarrow> leaderID s \<le> l" by simp
  then show ?thesis
    by (auto simp: SetLeader_def leader_key_def not_less not_le less_prod_simp less_eq_prod_simp intro: antisym)
qed

section \<open>Properties\<close>

text \<open>
  C16: Two nodes that start from the same belief and receive the same leader announcements, in any
  order and any number of times, end with the same leader and term: the announcement with the
  greatest term and, among those, the greatest id.
\<close>

theorem announcements_converge:
  assumes "leader_key s = leader_key s'" and "set as = set bs"
  shows "leader_key (fold announced as s) = leader_key (fold announced bs s') \<and>
    leader_key (fold announced as s) = Max (insert (leader_key s) ((\<lambda>(l, t). (t, l)) ` set as))"
  using leadership.fold_receive_agree [OF assms] leadership.fold_receive [of as s]
  by (simp add: case_prod_unfold)

theorem announcements_converge_witness:
  "leader_key (fold announced [(3, 1), (5, 2), (4, 2)] NewState) =
     leader_key (fold announced [(4, 2), (3, 1), (5, 2), (5, 2)] NewState) \<and>
   leader_key (fold announced [(3, 1), (5, 2), (4, 2)] NewState) = (2, 5)"
proof -
  have "leader_key (fold announced [(3, 1), (5, 2), (4, 2)] NewState) = (2, 5)" by code_simp
  with announcements_converge [of NewState NewState "[(3, 1), (5, 2), (4, 2)]" "[(4, 2), (3, 1), (5, 2), (5, 2)]"]
  show ?thesis by auto
qed

text \<open>
  C17: However the methods of \<open>State\<close> are called, a node that is in an election knows no leader, and a
  call never lowers the term unless it starts an election at the largest 64 bit number.
\<close>

theorem state_machine_sound:
  "(InElection (fold state_step cs NewState) \<longrightarrow> leaderID (fold state_step cs NewState) = 0) \<and>
   (\<not> wraps c (fold state_step cs NewState) \<longrightarrow>
      eterm (fold state_step cs NewState) \<le> eterm (state_step c (fold state_step cs NewState)))"
  using state_inv_steps [OF state_inv_New, of cs] state_step_term
  by (auto simp: state_inv_def InElection_def)

theorem state_machine_sound_witness:
  "InElection (fold state_step [CallUpdateTerm 4, CallSetLeader 7 4, CallBeginElection] NewState) \<and>
   leaderID (fold state_step [CallUpdateTerm 4, CallSetLeader 7 4, CallBeginElection] NewState) = 0"
proof -
  have "InElection (fold state_step [CallUpdateTerm 4, CallSetLeader 7 4, CallBeginElection] NewState)" by code_simp
  with state_machine_sound [of "[CallUpdateTerm 4, CallSetLeader 7 4, CallBeginElection]"] show ?thesis by blast
qed

end
