(* ===== verification/ElectionEngine.thy ===== *)
theory ElectionEngine
  imports ElectionState Cluster
begin

text \<open>
  \<open>election/engine.go\<close> and the handlers of \<open>server/election.go\<close>: one node's election engine as a set of
  goroutines over a shared state and two channels. A goroutine's control point is a constructor of
  \<open>goroutine\<close>; \<open>gstep\<close> runs it up to its next access to shared data (a method of \<open>State\<close>, a channel
  operation, \<open>Members()\<close>, a remote call), so that any interleaving the Go scheduler can produce is a
  sequence of such steps. What a goroutine cannot decide itself (the outcome of a call, a timer, a
  received event, the branch of a \<open>select\<close>) is the argument \<open>choice\<close>.
\<close>

section \<open>Data\<close>

datatype internal_type = InternalCoordinator | InternalRetry

record internal_event =
  ie_typ :: internal_type
  ie_term :: uint64
  ie_leaderID :: uint64
  ie_nodeID :: uint64

record engine =
  en_selfID :: uint64
  en_selfAddr :: string
  en_cfg :: election_config
  en_state :: estate
  electC :: "uint64 chan"
  internalC :: "internal_event chan"

definition NewEngine :: "election_config \<Rightarrow> uint64 \<Rightarrow> string \<Rightarrow> engine" where
  "NewEngine cfg selfID selfAddr =
     \<lparr>en_selfID = selfID, en_selfAddr = selfAddr, en_cfg = cfg, en_state = NewState,
      electC = make_chan 1, internalC = make_chan 8\<rparr>"

definition engine_IsLeader :: "engine \<Rightarrow> bool" where
  "engine_IsLeader e = IsLeader (en_selfID e) (en_state e)"

definition engine_CurrentLeader :: "engine \<Rightarrow> uint64" where
  "engine_CurrentLeader e = CurrentLeader (en_state e)"

definition engine_Term :: "engine \<Rightarrow> uint64" where
  "engine_Term e = Term (en_state e)"

definition engine_InElection :: "engine \<Rightarrow> bool" where
  "engine_InElection e = InElection (en_state e)"

definition engine_Phase :: "engine \<Rightarrow> phase" where
  "engine_Phase e = Phase (en_state e)"

lemmas engine_getters = engine_IsLeader_def engine_CurrentLeader_def engine_Term_def engine_InElection_def engine_Phase_def

text \<open>Requests and the response a node sends, with the address a request goes to.\<close>

datatype message =
    ElectionRequest string uint64 uint64 string
  | CoordinatorRequest string uint64 uint64
  | ElectionResponse bool uint64

section \<open>Back-off\<close>

text \<open>The next waiting time of the announcing loops, and of the loop in \<open>sendToHigher\<close>.\<close>

definition announce_backoff :: "election_config \<Rightarrow> duration \<Rightarrow> duration" where
  "announce_backoff cfg i = (if 2 * i > ElectionTimeout cfg then ElectionTimeout cfg else 2 * i)"

definition send_backoff :: "election_config \<Rightarrow> duration \<Rightarrow> duration" where
  "send_backoff cfg i =
     (if i < ElectionTimeout cfg
      then if 2 * i > ElectionTimeout cfg then ElectionTimeout cfg else 2 * i
      else i)"

section \<open>Goroutines\<close>

text \<open>
  \<open>sendToHigher\<close> while it runs: the senders that are about to call, that wait for a reply, that sleep
  after a failed call, the results in \<open>resultC\<close>, whose capacity is the number of senders, and the
  number of results the loop at the end has still to collect.
\<close>

record send_state =
  about_to_call :: "(member \<times> duration) list"
  in_call :: "(member \<times> duration) list"
  sleeping :: "(member \<times> duration) list"
  resultC :: "bool list"
  uncollected :: nat

datatype goroutine =
    OnStart_update uint64 uint64 string
  | OnStart_check uint64 string
  | OnStart_reply
  | Announce_self string duration
  | Announce_self_call string duration
  | Announce_self_sleep string duration
  | OnAnnounce_set uint64 uint64
  | OnAnnounce_signal uint64 uint64
  | Run
  | Joined_check uint64
  | Lost_check uint64
  | Lost_clear uint64
  | Lost_phase uint64
  | Lost_term uint64
  | Lost_signal uint64 uint64
  | Elect_begin
  | Elect_members uint64
  | Elect_send uint64 send_state
  | Elect_wait uint64
  | Await uint64
  | Await_leader uint64 uint64
  | Await_term uint64 uint64 uint64
  | Await_reset uint64
  | Await_cancel uint64
  | Declare uint64
  | Declare_announce uint64
  | Announce_member string uint64 duration
  | Announce_member_call string uint64 duration
  | Announce_member_sleep string uint64 duration

datatype choice =
    Proceed
  | Reply "error + bool"
  | Timer
  | CtxDone
  | GotEvent cluster_event
  | GotElect
  | Sender nat choice
  | Collect

definition signalCoordinator :: "uint64 \<Rightarrow> uint64 \<Rightarrow> engine \<Rightarrow> engine option" where
  "signalCoordinator t l e =
     map_option (\<lambda>c. e\<lparr>internalC := c\<rparr>)
       (chan_send \<lparr>ie_typ = InternalCoordinator, ie_term = t, ie_leaderID = l, ie_nodeID = 0\<rparr> (internalC e))"

definition signalRetry :: "uint64 \<Rightarrow> uint64 \<Rightarrow> engine \<Rightarrow> engine" where
  "signalRetry t n e =
     e\<lparr>internalC := chan_try_send \<lparr>ie_typ = InternalRetry, ie_term = t, ie_leaderID = 0, ie_nodeID = n\<rparr> (internalC e)\<rparr>"

text \<open>
  The goroutines of \<open>sendToHigher\<close>. A sender calls (the request is on its way from then on), gets a
  reply or an error, sleeps after an error, and then calls again or, when time is out, gives up.
\<close>

definition drop_nth :: "nat \<Rightarrow> 'a list \<Rightarrow> 'a list" where
  "drop_nth k xs = take k xs @ drop (Suc k) xs"

fun sender_step :: "election_config \<Rightarrow> nat \<Rightarrow> choice \<Rightarrow> send_state \<Rightarrow> (send_state \<times> member list) option" where
  "sender_step cfg k Proceed st =
     (if k < length (about_to_call st) then
        Some (st\<lparr>about_to_call := drop_nth k (about_to_call st), in_call := in_call st @ [about_to_call st ! k]\<rparr>,
              [fst (about_to_call st ! k)])
      else None)"
| "sender_step cfg k (Reply r) st =
     (if k < length (in_call st) then
        let st' = st\<lparr>in_call := drop_nth k (in_call st)\<rparr>
        in case r of
             Inr ok \<Rightarrow> Some (st'\<lparr>resultC := resultC st @ [ok]\<rparr>, [])
           | Inl _ \<Rightarrow> Some (st'\<lparr>sleeping := sleeping st @ [in_call st ! k]\<rparr>, [])
      else None)"
| "sender_step cfg k Timer st =
     (if k < length (sleeping st) then
        let (m, i) = sleeping st ! k
        in Some (st\<lparr>sleeping := drop_nth k (sleeping st),
                    about_to_call := about_to_call st @ [(m, send_backoff cfg i)]\<rparr>, [])
      else None)"
| "sender_step cfg k CtxDone st =
     (if k < length (sleeping st)
      then Some (st\<lparr>sleeping := drop_nth k (sleeping st), resultC := resultC st @ [False]\<rparr>, [])
      else None)"
| "sender_step cfg k _ st = None"

definition higher_members :: "uint64 \<Rightarrow> (uint64, member) gomap \<Rightarrow> member list" where
  "higher_members selfID ms = filter (\<lambda>m. member_ID m > selfID) (map snd ms)"

text \<open>What a step leaves: the goroutines that replace the one that ran, the engine and the messages sent.\<close>

type_synonym outcome = "goroutine list \<times> engine \<times> message list"

text \<open>\<open>OnStartElection\<close>, without the announcing goroutine it may start: it takes over a higher term, answers the sender itself when it leads, and asks for an election otherwise.\<close>

fun OnStartElection :: "(uint64, member) gomap \<Rightarrow> choice \<Rightarrow> goroutine \<Rightarrow> engine \<Rightarrow> outcome option" where
  "OnStartElection ms ch (OnStart_update from t addr) e =
     Some ([OnStart_check from addr], e\<lparr>en_state := UpdateTerm t (en_state e)\<rparr>, [])"
| "OnStartElection ms ch (OnStart_check from addr) e =
     (if IsLeader (en_selfID e) (en_state e)
      then Some ([Announce_self addr (AnnounceRetryInterval (en_cfg e)), OnStart_reply], e, [])
      else Some ([OnStart_reply], e\<lparr>electC := chan_try_send from (electC e)\<rparr>, []))"
| "OnStartElection ms ch OnStart_reply e = Some ([], e, [ElectionResponse True (Term (en_state e))])"
| "OnStartElection ms ch _ e = None"

text \<open>The goroutine of \<open>OnStartElection\<close> that announces the leader to the sender; it reads the term at each attempt.\<close>

fun announce_to_sender :: "(uint64, member) gomap \<Rightarrow> choice \<Rightarrow> goroutine \<Rightarrow> engine \<Rightarrow> outcome option" where
  "announce_to_sender ms ch (Announce_self addr i) e =
     Some ([Announce_self_call addr i], e, [CoordinatorRequest addr (en_selfID e) (Term (en_state e))])"
| "announce_to_sender ms ch (Announce_self_call addr i) e =
     (case ch of
        Reply (Inr _) \<Rightarrow> Some ([], e, [])
      | Reply (Inl _) \<Rightarrow> Some ([Announce_self_sleep addr i], e, [])
      | _ \<Rightarrow> None)"
| "announce_to_sender ms ch (Announce_self_sleep addr i) e =
     (case ch of
        CtxDone \<Rightarrow> Some ([], e, [])
      | Timer \<Rightarrow> Some ([Announce_self addr (announce_backoff (en_cfg e) i)], e, [])
      | _ \<Rightarrow> None)"
| "announce_to_sender ms ch _ e = None"

text \<open>\<open>OnAnnounceLeader\<close>; the signal blocks while \<open>internalC\<close> is full.\<close>

fun OnAnnounceLeader :: "(uint64, member) gomap \<Rightarrow> choice \<Rightarrow> goroutine \<Rightarrow> engine \<Rightarrow> outcome option" where
  "OnAnnounceLeader ms ch (OnAnnounce_set l t) e =
     (case SetLeader l t (en_state e) of
        (ok, s') \<Rightarrow> Some (if ok then [OnAnnounce_signal l t] else [], e\<lparr>en_state := s'\<rparr>, []))"
| "OnAnnounceLeader ms ch (OnAnnounce_signal l t) e =
     (case signalCoordinator t l e of None \<Rightarrow> None | Some e' \<Rightarrow> Some ([], e', []))"
| "OnAnnounceLeader ms ch _ e = None"

definition handleElectRequest :: "uint64 \<Rightarrow> goroutine list" where
  [simp]: "handleElectRequest fromID = [Elect_begin]"

text \<open>\<open>run\<close>, with the first check of \<open>handleNodeJoined\<close>, which reads no shared data.\<close>

fun run :: "(uint64, member) gomap \<Rightarrow> choice \<Rightarrow> goroutine \<Rightarrow> engine \<Rightarrow> outcome option" where
  "run ms ch Run e =
     (case ch of
        GotEvent ev \<Rightarrow>
          (case ev_Type ev of
             EventJoin \<Rightarrow>
               Some ([if ev_MemberID ev = en_selfID e then Run else Joined_check (ev_MemberID ev)], e, [])
           | EventLeave \<Rightarrow> Some ([Lost_check (ev_MemberID ev)], e, []))
      | GotElect \<Rightarrow>
          (case chan_recv (electC e) of
             None \<Rightarrow> None
           | Some (fromID, c) \<Rightarrow> Some (handleElectRequest fromID @ [Run], e\<lparr>electC := c\<rparr>, []))
      | CtxDone \<Rightarrow> Some ([], e, [])
      | _ \<Rightarrow> None)"
| "run ms ch _ e = None"

fun handleNodeJoined :: "(uint64, member) gomap \<Rightarrow> choice \<Rightarrow> goroutine \<Rightarrow> engine \<Rightarrow> outcome option" where
  "handleNodeJoined ms ch (Joined_check j) e =
     (let l = CurrentLeader (en_state e)
      in Some (if l = 0 \<or> j > l then [Elect_begin, Run] else [Run], e, []))"
| "handleNodeJoined ms ch _ e = None"

fun handleNodeLost :: "(uint64, member) gomap \<Rightarrow> choice \<Rightarrow> goroutine \<Rightarrow> engine \<Rightarrow> outcome option" where
  "handleNodeLost ms ch (Lost_check j) e =
     Some ([if CurrentLeader (en_state e) = j then Lost_clear j else Lost_phase j], e, [])"
| "handleNodeLost ms ch (Lost_clear j) e =
     Some ([Elect_begin, Run], e\<lparr>en_state := snd (ClearLeaderIfMatches j (en_state e))\<rparr>, [])"
| "handleNodeLost ms ch (Lost_phase j) e =
     Some ([if Phase (en_state e) = PhaseWaitingCoordinator \<and> j > en_selfID e then Lost_term j else Run], e, [])"
| "handleNodeLost ms ch (Lost_term j) e = Some ([Lost_signal j (Term (en_state e))], e, [])"
| "handleNodeLost ms ch (Lost_signal j t) e = Some ([Run], signalRetry t j e, [])"
| "handleNodeLost ms ch _ e = None"

text \<open>\<open>startElection\<close>, up to the functions it calls.\<close>

fun startElection :: "(uint64, member) gomap \<Rightarrow> choice \<Rightarrow> goroutine \<Rightarrow> engine \<Rightarrow> outcome option" where
  "startElection ms ch Elect_begin e =
     (case BeginElection (en_state e) of
        ((t, ok), s') \<Rightarrow> Some (if ok then [Elect_members t] else [], e\<lparr>en_state := s'\<rparr>, []))"
| "startElection ms ch (Elect_members t) e =
     (let higher = higher_members (en_selfID e) ms
      in if higher = [] then Some ([Declare t], e, [])
         else Some ([Elect_send t \<lparr>about_to_call = map (\<lambda>m. (m, SendRetryInterval (en_cfg e))) higher, in_call = [],
                sleeping = [], resultC = [], uncollected = length higher\<rparr>], e, []))"
| "startElection ms ch (Elect_wait t) e =
     (case EnterWaitingCoordinator t (en_state e) of
        (ok, s') \<Rightarrow> Some (if ok then [Await t] else [], e\<lparr>en_state := s'\<rparr>, []))"
| "startElection ms ch _ e = None"

text \<open>The collecting loop of \<open>sendToHigher\<close> and its senders.\<close>

fun sendToHigher :: "(uint64, member) gomap \<Rightarrow> choice \<Rightarrow> goroutine \<Rightarrow> engine \<Rightarrow> outcome option" where
  "sendToHigher ms ch (Elect_send t st) e =
     (case ch of
        Sender k c \<Rightarrow>
          (case sender_step (en_cfg e) k c st of
             None \<Rightarrow> None
           | Some (st', to) \<Rightarrow>
               Some ([Elect_send t st'], e,
                 map (\<lambda>m. ElectionRequest (member_GRPCAddr m) (en_selfID e) t (en_selfAddr e)) to))
      | Collect \<Rightarrow>
          if uncollected st = 0 then Some ([Declare t], e, [])
          else (case resultC st of
             [] \<Rightarrow> None
           | ok # results \<Rightarrow>
               Some ([if ok then Elect_wait t
                      else Elect_send t (st\<lparr>resultC := results, uncollected := uncollected st - 1\<rparr>)], e, []))
      | CtxDone \<Rightarrow> if uncollected st = 0 then None else Some ([Declare t], e, [])
      | _ \<Rightarrow> None)"
| "sendToHigher ms ch _ e = None"

fun waitForCoordinator :: "(uint64, member) gomap \<Rightarrow> choice \<Rightarrow> goroutine \<Rightarrow> engine \<Rightarrow> outcome option" where
  "waitForCoordinator ms ch (Await t) e =
     (case ch of
        Proceed \<Rightarrow>
          (case chan_recv (internalC e) of
             None \<Rightarrow> None
           | Some (ev, c) \<Rightarrow>
               Some ([if ie_term ev < t then Await t
                      else case ie_typ ev of InternalCoordinator \<Rightarrow> Await_leader t (ie_term ev)
                                           | InternalRetry \<Rightarrow> Await_reset t],
                     e\<lparr>internalC := c\<rparr>, []))
      | Timer \<Rightarrow> Some ([Await_reset t], e, [])
      | CtxDone \<Rightarrow> Some ([Await_cancel t], e, [])
      | _ \<Rightarrow> None)"
| "waitForCoordinator ms ch (Await_leader t evt) e = Some ([Await_term t evt (CurrentLeader (en_state e))], e, [])"
| "waitForCoordinator ms ch (Await_term t evt l) e =
     Some (if l = 0 \<or> Term (en_state e) < evt then [Await_reset t] else [], e, [])"
| "waitForCoordinator ms ch (Await_reset t) e =
     Some ([Elect_begin], e\<lparr>en_state := snd (ResetElection t (en_state e))\<rparr>, [])"
| "waitForCoordinator ms ch (Await_cancel t) e =
     Some ([], e\<lparr>en_state := snd (ResetElection t (en_state e))\<rparr>, [])"
| "waitForCoordinator ms ch _ e = None"

fun declareLeader :: "(uint64, member) gomap \<Rightarrow> choice \<Rightarrow> goroutine \<Rightarrow> engine \<Rightarrow> outcome option" where
  "declareLeader ms ch (Declare t) e =
     (case SetLeader (en_selfID e) t (en_state e) of
        (ok, s') \<Rightarrow> Some (if ok then [Declare_announce t] else [], e\<lparr>en_state := s'\<rparr>, []))"
| "declareLeader ms ch (Declare_announce t) e =
     Some (map (\<lambda>m. Announce_member (member_GRPCAddr m) t (AnnounceRetryInterval (en_cfg e))) (map snd ms), e, [])"
| "declareLeader ms ch _ e = None"

text \<open>The goroutines of \<open>declareLeader\<close>, which announce the term it has won.\<close>

fun announce_to_member :: "(uint64, member) gomap \<Rightarrow> choice \<Rightarrow> goroutine \<Rightarrow> engine \<Rightarrow> outcome option" where
  "announce_to_member ms ch (Announce_member addr t i) e =
     Some ([Announce_member_call addr t i], e, [CoordinatorRequest addr (en_selfID e) t])"
| "announce_to_member ms ch (Announce_member_call addr t i) e =
     (case ch of
        Reply (Inr _) \<Rightarrow> Some ([], e, [])
      | Reply (Inl _) \<Rightarrow> Some ([Announce_member_sleep addr t i], e, [])
      | _ \<Rightarrow> None)"
| "announce_to_member ms ch (Announce_member_sleep addr t i) e =
     (case ch of
        CtxDone \<Rightarrow> Some ([], e, [])
      | Timer \<Rightarrow> Some ([Announce_member addr t (announce_backoff (en_cfg e) i)], e, [])
      | _ \<Rightarrow> None)"
| "announce_to_member ms ch _ e = None"

text \<open>A step of any goroutine of the node.\<close>

fun gstep :: "(uint64, member) gomap \<Rightarrow> choice \<Rightarrow> goroutine \<Rightarrow> engine \<Rightarrow> outcome option" where
  "gstep ms ch (OnStart_update from t addr) e = OnStartElection ms ch (OnStart_update from t addr) e"
| "gstep ms ch (OnStart_check from addr) e = OnStartElection ms ch (OnStart_check from addr) e"
| "gstep ms ch OnStart_reply e = OnStartElection ms ch OnStart_reply e"
| "gstep ms ch (Announce_self addr i) e = announce_to_sender ms ch (Announce_self addr i) e"
| "gstep ms ch (Announce_self_call addr i) e = announce_to_sender ms ch (Announce_self_call addr i) e"
| "gstep ms ch (Announce_self_sleep addr i) e = announce_to_sender ms ch (Announce_self_sleep addr i) e"
| "gstep ms ch (OnAnnounce_set l t) e = OnAnnounceLeader ms ch (OnAnnounce_set l t) e"
| "gstep ms ch (OnAnnounce_signal l t) e = OnAnnounceLeader ms ch (OnAnnounce_signal l t) e"
| "gstep ms ch Run e = run ms ch Run e"
| "gstep ms ch (Joined_check j) e = handleNodeJoined ms ch (Joined_check j) e"
| "gstep ms ch (Lost_check j) e = handleNodeLost ms ch (Lost_check j) e"
| "gstep ms ch (Lost_clear j) e = handleNodeLost ms ch (Lost_clear j) e"
| "gstep ms ch (Lost_phase j) e = handleNodeLost ms ch (Lost_phase j) e"
| "gstep ms ch (Lost_term j) e = handleNodeLost ms ch (Lost_term j) e"
| "gstep ms ch (Lost_signal j t) e = handleNodeLost ms ch (Lost_signal j t) e"
| "gstep ms ch Elect_begin e = startElection ms ch Elect_begin e"
| "gstep ms ch (Elect_members t) e = startElection ms ch (Elect_members t) e"
| "gstep ms ch (Elect_wait t) e = startElection ms ch (Elect_wait t) e"
| "gstep ms ch (Elect_send t st) e = sendToHigher ms ch (Elect_send t st) e"
| "gstep ms ch (Await t) e = waitForCoordinator ms ch (Await t) e"
| "gstep ms ch (Await_leader t evt) e = waitForCoordinator ms ch (Await_leader t evt) e"
| "gstep ms ch (Await_term t evt l) e = waitForCoordinator ms ch (Await_term t evt l) e"
| "gstep ms ch (Await_reset t) e = waitForCoordinator ms ch (Await_reset t) e"
| "gstep ms ch (Await_cancel t) e = waitForCoordinator ms ch (Await_cancel t) e"
| "gstep ms ch (Declare t) e = declareLeader ms ch (Declare t) e"
| "gstep ms ch (Declare_announce t) e = declareLeader ms ch (Declare_announce t) e"
| "gstep ms ch (Announce_member addr t i) e = announce_to_member ms ch (Announce_member addr t i) e"
| "gstep ms ch (Announce_member_call addr t i) e = announce_to_member ms ch (Announce_member_call addr t i) e"
| "gstep ms ch (Announce_member_sleep addr t i) e = announce_to_member ms ch (Announce_member_sleep addr t i) e"

section \<open>A node\<close>

record node =
  nd_engine :: engine
  nd_procs :: "goroutine list"

text \<open>\<open>Start\<close>\<close>

definition start_node :: "election_config \<Rightarrow> uint64 \<Rightarrow> string \<Rightarrow> node" where
  "start_node cfg selfID selfAddr = \<lparr>nd_engine = NewEngine cfg selfID selfAddr, nd_procs = [Run, Elect_begin]\<rparr>"

definition node_step ::
  "(uint64, member) gomap \<Rightarrow> nat \<Rightarrow> choice \<Rightarrow> node \<Rightarrow> (node \<times> message list) option" where
  "node_step ms k ch nd =
     (if k < length (nd_procs nd) then
        case gstep ms ch (nd_procs nd ! k) (nd_engine nd) of
          None \<Rightarrow> None
        | Some (gs, e, out) \<Rightarrow>
            Some (\<lparr>nd_engine = e, nd_procs = take k (nd_procs nd) @ gs @ drop (Suc k) (nd_procs nd)\<rparr>, out)
      else None)"

text \<open>The gRPC server starts a goroutine per request it receives.\<close>

definition recv_StartElection :: "uint64 \<Rightarrow> uint64 \<Rightarrow> string \<Rightarrow> node \<Rightarrow> node" where
  "recv_StartElection from t addr nd = nd\<lparr>nd_procs := nd_procs nd @ [OnStart_update from t addr]\<rparr>"

definition recv_AnnounceLeader :: "uint64 \<Rightarrow> uint64 \<Rightarrow> node \<Rightarrow> node" where
  "recv_AnnounceLeader l t nd = nd\<lparr>nd_procs := nd_procs nd @ [OnAnnounce_set l t]\<rparr>"

section \<open>The waiting times\<close>

lemma announce_backoff_iterate:
  assumes "0 \<le> i" and "i \<le> ElectionTimeout cfg"
  shows "(announce_backoff cfg ^^ k) i = min (2 ^ k * i) (ElectionTimeout cfg)"
proof (induction k)
  case (Suc k)
  then show ?case using assms by (auto simp: announce_backoff_def min_def)
qed (use assms in simp)

lemma send_backoff_iterate:
  assumes "0 \<le> i" and "i \<le> ElectionTimeout cfg"
  shows "(send_backoff cfg ^^ k) i = (announce_backoff cfg ^^ k) i"
proof (induction k)
  case (Suc k)
  have "send_backoff cfg j = announce_backoff cfg j" if "0 \<le> j" "j \<le> ElectionTimeout cfg" for j
    using that by (auto simp: send_backoff_def announce_backoff_def)
  moreover have "0 \<le> (announce_backoff cfg ^^ k) i" "(announce_backoff cfg ^^ k) i \<le> ElectionTimeout cfg"
    using assms by (simp_all add: announce_backoff_iterate)
  ultimately show ?case using Suc by simp
qed simp



end
