(* ===== verification/ElectionNode.thy ===== *)
theory ElectionNode
  imports ElectionEngine
begin

text \<open>
  One node of the election, whatever its goroutines' interleaving, its membership view, the requests
  it receives and the outcome of its calls: elections exclude each other, an election is never
  abandoned, and the channels stay within their capacity.
\<close>

section \<open>Runs of a node\<close>

text \<open>
  The runs of a node in which its term has not reached the largest 64 bit number, where
  \<open>s.term++\<close> would wrap.
\<close>

inductive node_reach :: "election_config \<Rightarrow> uint64 \<Rightarrow> string \<Rightarrow> node \<Rightarrow> bool" for cfg self addr where
  start: "node_reach cfg self addr (start_node cfg self addr)"
| step: "node_reach cfg self addr nd \<Longrightarrow> eterm (en_state (nd_engine nd)) \<noteq> - 1 \<Longrightarrow>
    node_step ms k ch nd = Some (nd', out) \<Longrightarrow> node_reach cfg self addr nd'"
| elect_request: "node_reach cfg self addr nd \<Longrightarrow> node_reach cfg self addr (recv_StartElection from t raddr nd)"
| announcement: "node_reach cfg self addr nd \<Longrightarrow> node_reach cfg self addr (recv_AnnounceLeader l t nd)"

lemma node_step_procs_nth:
  assumes "node_step ms k ch nd = Some (nd', out)"
  obtains pre g post gs where "nd_procs nd = pre @ g # post" "nd_procs nd' = pre @ gs @ post"
    "gstep ms ch g (nd_engine nd) = Some (gs, nd_engine nd', out)" "nd_procs nd ! k = g"
proof -
  have k: "k < length (nd_procs nd)" using assms by (auto simp: node_step_def split: if_splits)
  then have "nd_procs nd = take k (nd_procs nd) @ nd_procs nd ! k # drop (Suc k) (nd_procs nd)"
    by (simp add: id_take_nth_drop)
  moreover obtain gs where "gstep ms ch (nd_procs nd ! k) (nd_engine nd) = Some (gs, nd_engine nd', out)"
      "nd_procs nd' = take k (nd_procs nd) @ gs @ drop (Suc k) (nd_procs nd)"
    using assms by (auto simp: node_step_def split: if_splits option.splits prod.splits)
  ultimately show thesis using that by blast
qed

lemma node_step_procs:
  assumes "node_step ms k ch nd = Some (nd', out)"
  obtains pre g post gs where "nd_procs nd = pre @ g # post" "nd_procs nd' = pre @ gs @ post"
    "gstep ms ch g (nd_engine nd) = Some (gs, nd_engine nd', out)"
  using node_step_procs_nth [OF assms] by metis

lemmas gstep_splits = option.splits prod.splits choice.splits sum.splits if_splits event_type.splits
  internal_type.splits list.splits

section \<open>The state\<close>

lemma gstep_state:
  assumes "gstep ms ch g e = Some (gs, e', out)"
  shows "en_state e' = en_state e \<or> (\<exists>c. en_state e' = state_step c (en_state e) \<and>
      (c = CallBeginElection \<longleftrightarrow> g = Elect_begin))"
proof (cases g)
  case (OnStart_update f t addr)
  then show ?thesis using assms by (intro disjI2 exI [of _ "CallUpdateTerm t"]) auto
next
  case (OnAnnounce_set l t)
  then show ?thesis using assms by (intro disjI2 exI [of _ "CallSetLeader l t"]) (auto split: prod.splits)
next
  case (Lost_clear j)
  then show ?thesis using assms by (intro disjI2 exI [of _ "CallClearLeader j"]) auto
next
  case Elect_begin
  then show ?thesis using assms by (intro disjI2 exI [of _ CallBeginElection]) (auto split: prod.splits)
next
  case (Elect_wait t)
  then show ?thesis using assms by (intro disjI2 exI [of _ "CallEnterWaiting t"]) (auto split: prod.splits)
next
  case (Await_reset t)
  then show ?thesis using assms by (intro disjI2 exI [of _ "CallResetElection t"]) auto
next
  case (Await_cancel t)
  then show ?thesis using assms by (intro disjI2 exI [of _ "CallResetElection t"]) auto
next
  case (Declare t)
  then show ?thesis using assms by (intro disjI2 exI [of _ "CallSetLeader (en_selfID e) t"]) (auto split: prod.splits)
qed (use assms in \<open>auto simp: Let_def signalCoordinator_def signalRetry_def split: gstep_splits\<close>)

lemma gstep_state_inv: "gstep ms ch g e = Some (gs, e', out) \<Longrightarrow> state_inv (en_state e) \<Longrightarrow> state_inv (en_state e')"
  by (metis gstep_state state_inv_step)

lemma gstep_term:
  assumes "gstep ms ch g e = Some (gs, e', out)" and "eterm (en_state e) \<noteq> - 1"
  shows "eterm (en_state e) \<le> eterm (en_state e')"
  using gstep_state [OF assms(1)]
proof (elim disjE exE conjE)
  fix c assume "en_state e' = state_step c (en_state e)"
  with assms(2) state_step_term [of c "en_state e"] show ?thesis by (simp add: wraps_def)
qed simp

lemma gstep_fixed:
  assumes "gstep ms ch g e = Some (gs, e', out)"
  shows "en_selfID e' = en_selfID e \<and> en_selfAddr e' = en_selfAddr e \<and> en_cfg e' = en_cfg e"
  by (cases g) (use assms in \<open>auto simp: Let_def signalCoordinator_def signalRetry_def split: gstep_splits\<close>)

section \<open>Elections exclude each other\<close>

text \<open>The term of the election a goroutine is running.\<close>

fun election_term :: "goroutine \<Rightarrow> uint64 option" where
  "election_term (Elect_members t) = Some t"
| "election_term (Elect_send t st) = Some t"
| "election_term (Elect_wait t) = Some t"
| "election_term (Await t) = Some t"
| "election_term (Await_leader t evt) = Some t"
| "election_term (Await_term t evt l) = Some t"
| "election_term (Await_reset t) = Some t"
| "election_term (Await_cancel t) = Some t"
| "election_term (Declare t) = Some t"
| "election_term (Declare_announce t) = Some t"
| "election_term _ = None"

definition eterms :: "goroutine list \<Rightarrow> uint64 list" where
  "eterms gs = List.map_filter election_term gs"

lemma eterms_simps [simp]:
  "eterms [] = []" "eterms (g # gs) = (case election_term g of None \<Rightarrow> eterms gs | Some t \<Rightarrow> t # eterms gs)"
  "eterms (xs @ ys) = eterms xs @ eterms ys"
  by (auto simp: eterms_def map_filter_def split: option.splits)

lemma eterms_none: "(\<And>g. g \<in> set gs \<Longrightarrow> election_term g = None) \<Longrightarrow> eterms gs = []"
  by (induction gs) auto

lemma gstep_eterms:
  assumes "gstep ms ch g e = Some (gs, e', out)" and "eterm (en_state e) \<noteq> - 1"
  shows "eterms gs = [] \<or> eterms gs = eterms [g] \<or>
    (\<exists>t. eterms gs = [t] \<and> eterm (en_state e) < t \<and> t = eterm (en_state e'))"
proof (cases g)
  case Elect_begin
  then show ?thesis using assms inc_greater [of "eterm (en_state e)"]
    by (auto simp: BeginElection_def split: phase.splits)
next
  case (Declare_announce t)
  then have "eterms gs = []" using assms(1) by (auto intro!: eterms_none)
  then show ?thesis by simp
qed (use assms in \<open>auto simp: Let_def signalCoordinator_def signalRetry_def split: gstep_splits\<close>)

definition exclusive_elections :: "node \<Rightarrow> bool" where
  "exclusive_elections nd \<longleftrightarrow> distinct (eterms (nd_procs nd)) \<and>
     (\<forall>t \<in> set (eterms (nd_procs nd)). t \<le> eterm (en_state (nd_engine nd)))"

lemma exclusive_elections_step:
  assumes "exclusive_elections nd" and "node_step ms k ch nd = Some (nd', out)"
    and nw: "eterm (en_state (nd_engine nd)) \<noteq> - 1"
  shows "exclusive_elections nd'"
proof -
  obtain pre g post gs where p: "nd_procs nd = pre @ g # post" "nd_procs nd' = pre @ gs @ post"
    and g: "gstep ms ch g (nd_engine nd) = Some (gs, nd_engine nd', out)"
    by (rule node_step_procs [OF assms(2)])
  have old: "distinct (eterms pre @ eterms [g] @ eterms post)"
    "\<forall>t \<in> set (eterms pre @ eterms [g] @ eterms post). t \<le> eterm (en_state (nd_engine nd))"
    using assms(1) p by (auto simp: exclusive_elections_def split: option.splits)
  note le = gstep_term [OF g nw]
  have le': "\<forall>t \<in> set (eterms pre @ eterms [g] @ eterms post). t \<le> eterm (en_state (nd_engine nd'))"
    using old(2) le by (blast intro: order_trans)
  from gstep_eterms [OF g nw] show ?thesis
  proof (elim disjE exE conjE)
    fix t assume t: "eterms gs = [t]" "eterm (en_state (nd_engine nd)) < t" "t = eterm (en_state (nd_engine nd'))"
    then have "t \<notin> set (eterms pre @ eterms [g] @ eterms post)" using old(2) by (auto simp: not_le [symmetric])
    with t old(1) le' show ?thesis unfolding exclusive_elections_def p eterms_simps(3) by auto
  next
    assume "eterms gs = []"
    with old(1) le' show ?thesis unfolding exclusive_elections_def p eterms_simps(3) by auto
  next
    assume "eterms gs = eterms [g]"
    with old(1) le' show ?thesis unfolding exclusive_elections_def p eterms_simps(3) by simp
  qed
qed

lemma exclusive_elections_recv:
  "exclusive_elections nd \<Longrightarrow> exclusive_elections (recv_StartElection from t addr nd)"
  "exclusive_elections nd \<Longrightarrow> exclusive_elections (recv_AnnounceLeader l t nd)"
  by (simp_all add: exclusive_elections_def recv_StartElection_def recv_AnnounceLeader_def)

section \<open>An election is never abandoned\<close>

text \<open>
  While the phase is \<open>PhaseElecting\<close> or \<open>PhaseWaitingCoordinator\<close> no other election can begin, so
  some goroutine of the current term has to be at work on it.
\<close>

fun electing :: "goroutine \<Rightarrow> uint64 option" where
  "electing (Elect_members t) = Some t"
| "electing (Elect_send t st) = Some t"
| "electing (Elect_wait t) = Some t"
| "electing (Declare t) = Some t"
| "electing _ = None"

fun awaiting :: "goroutine \<Rightarrow> uint64 option" where
  "awaiting (Await t) = Some t"
| "awaiting (Await_leader t evt) = Some t"
| "awaiting (Await_term t evt l) = (if l = 0 then Some t else None)"
| "awaiting (Await_reset t) = Some t"
| "awaiting (Await_cancel t) = Some t"
| "awaiting _ = None"

fun owner :: "phase \<Rightarrow> goroutine \<Rightarrow> uint64 option" where
  "owner PhaseElecting g = electing g"
| "owner PhaseWaitingCoordinator g = awaiting g"
| "owner _ g = None"

definition owned :: "node \<Rightarrow> bool" where
  "owned nd \<longleftrightarrow> (let s = en_state (nd_engine nd) in
     InElection s \<longrightarrow> (\<exists>g \<in> set (nd_procs nd). owner (ephase s) g = Some (eterm s)))"

lemma gstep_owner:
  assumes "gstep ms ch g e = Some (gs, e', out)" and "state_inv (en_state e)" and "InElection (en_state e')"
  shows "(\<exists>g' \<in> set gs. owner (ephase (en_state e')) g' = Some (eterm (en_state e'))) \<or>
    (ephase (en_state e') = ephase (en_state e) \<and> eterm (en_state e') = eterm (en_state e) \<and>
     owner (ephase (en_state e)) g \<noteq> Some (eterm (en_state e)))"
proof (cases g)
  case (Elect_send t st)
  then show ?thesis using assms by (auto simp: InElection_def split: gstep_splits)
next
  case (Await t)
  then show ?thesis using assms by (auto simp: InElection_def split: gstep_splits)
next
  case (Declare t)
  then show ?thesis using assms
    by (auto simp: InElection_def SetLeader_def state_inv_def split: if_splits)
next
  case (Run)
  then show ?thesis using assms by (auto simp: InElection_def split: gstep_splits)
qed (use assms in \<open>auto simp: Let_def signalCoordinator_def signalRetry_def InElection_def state_defs state_inv_def
      CurrentLeader_def split: gstep_splits phase.splits\<close>)

lemma owned_step:
  assumes "owned nd" and "state_inv (en_state (nd_engine nd))" and "node_step ms k ch nd = Some (nd', out)"
  shows "owned nd'"
proof -
  obtain pre g post gs where p: "nd_procs nd = pre @ g # post" "nd_procs nd' = pre @ gs @ post"
    and g: "gstep ms ch g (nd_engine nd) = Some (gs, nd_engine nd', out)"
    by (rule node_step_procs [OF assms(3)])
  show ?thesis unfolding owned_def Let_def
  proof
    let ?s = "en_state (nd_engine nd)" and ?s' = "en_state (nd_engine nd')"
    assume e: "InElection ?s'"
    from gstep_owner [OF g assms(2) e]
    show "\<exists>g' \<in> set (nd_procs nd'). owner (ephase ?s') g' = Some (eterm ?s')"
    proof
      assume same: "ephase ?s' = ephase ?s \<and> eterm ?s' = eterm ?s \<and> owner (ephase ?s) g \<noteq> Some (eterm ?s)"
      then have "InElection ?s" using e by (simp add: InElection_def)
      with assms(1) same show ?thesis by (auto simp: owned_def Let_def p)
    qed (auto simp: p)
  qed
qed

text \<open>The goroutine that owns an election can always go on.\<close>

lemma owner_enabled:
  assumes "owner (ephase (en_state e)) g = Some t"
  shows "\<exists>ch r. gstep ms ch g e = Some r"
proof (cases g)
  case (Elect_send t st)
  then show ?thesis
    by (intro exI [of _ "if uncollected st = 0 then Collect else CtxDone"]) simp
next
  case (Await t)
  then show ?thesis by (intro exI [of _ Timer]) simp
qed (use assms in \<open>cases "ephase (en_state e)"; auto simp: Let_def split: prod.splits\<close>)+

section \<open>The invariant of a node\<close>

definition channels_ok :: "engine \<Rightarrow> bool" where
  "channels_ok e \<longleftrightarrow> length (chan_buf (internalC e)) \<le> chan_cap (internalC e) \<and> chan_cap (internalC e) = 8 \<and>
     length (chan_buf (electC e)) \<le> chan_cap (electC e) \<and> chan_cap (electC e) = 1"

lemma gstep_channels:
  assumes "gstep ms ch g e = Some (gs, e', out)" and "channels_ok e"
  shows "channels_ok e'"
proof (cases g)
  case (OnStart_check f addr)
  then show ?thesis using assms go_chan.bounded_trysend [of "electC e" f]
    by (auto simp: channels_ok_def go_chan.trysend_capacity split: if_splits)
next
  case (OnAnnounce_signal l t)
  then obtain c where "chan_send \<lparr>ie_typ = InternalCoordinator, ie_term = t, ie_leaderID = l, ie_nodeID = 0\<rparr>
      (internalC e) = Some c" "e' = e\<lparr>internalC := c\<rparr>"
    using assms(1) by (auto simp: signalCoordinator_def split: option.splits)
  with go_chan.bounded_blocksend [OF _ this(1)] assms(2) show ?thesis by (auto simp: channels_ok_def)
next
  case Run
  then show ?thesis using assms go_chan.bounded_receive [of "electC e"] go_chan.receive_Some [of "electC e"]
    by (auto simp: channels_ok_def split: gstep_splits)
next
  case (Await t)
  then show ?thesis using assms go_chan.bounded_receive [of "internalC e"] go_chan.receive_Some [of "internalC e"]
    by (auto simp: channels_ok_def split: gstep_splits)
next
  case (Lost_signal j t)
  then show ?thesis using assms go_chan.bounded_trysend [of "internalC e"]
    by (auto simp: channels_ok_def signalRetry_def go_chan.trysend_capacity)
qed (use assms in \<open>auto simp: Let_def channels_ok_def split: gstep_splits\<close>)

definition node_inv :: "election_config \<Rightarrow> uint64 \<Rightarrow> string \<Rightarrow> node \<Rightarrow> bool" where
  "node_inv cfg self addr nd \<longleftrightarrow> state_inv (en_state (nd_engine nd)) \<and> exclusive_elections nd \<and> owned nd \<and>
     channels_ok (nd_engine nd) \<and>
     en_selfID (nd_engine nd) = self \<and> en_selfAddr (nd_engine nd) = addr \<and> en_cfg (nd_engine nd) = cfg"

lemma node_reach_inv: "node_reach cfg self addr nd \<Longrightarrow> node_inv cfg self addr nd"
proof (induction rule: node_reach.induct)
  case start
  then show ?case
    by (simp add: node_inv_def start_node_def NewEngine_def exclusive_elections_def owned_def
        channels_ok_def make_chan_def InElection_def NewState_def state_inv_def)
next
  case (step nd ms k ch nd' out)
  obtain pre g post gs where g: "gstep ms ch g (nd_engine nd) = Some (gs, nd_engine nd', out)"
    by (rule node_step_procs [OF step.hyps(3)])
  show ?case
    using step.IH step.hyps exclusive_elections_step [of nd ms k ch nd' out] owned_step [of nd ms k ch nd' out]
      gstep_state_inv [OF g] gstep_channels [OF g] gstep_fixed [OF g]
    by (simp add: node_inv_def)
next
  case (elect_request nd f t raddr)
  then show ?case by (auto simp: node_inv_def exclusive_elections_recv recv_StartElection_def owned_def
      exclusive_elections_def Let_def)
next
  case (announcement nd l t)
  then show ?case by (auto simp: node_inv_def exclusive_elections_recv recv_AnnounceLeader_def owned_def
      exclusive_elections_def Let_def)
qed

section \<open>Running a node on given inputs\<close>

datatype node_input =
    Go "(uint64, member) gomap" nat choice
  | GetElection uint64 uint64 string
  | GetAnnouncement uint64 uint64

fun feed :: "node_input list \<Rightarrow> node \<Rightarrow> (node \<times> message list) option" where
  "feed [] nd = Some (nd, [])"
| "feed (GetElection f t a # is) nd = feed is (recv_StartElection f t a nd)"
| "feed (GetAnnouncement l t # is) nd = feed is (recv_AnnounceLeader l t nd)"
| "feed (Go ms k ch # is) nd =
     (if eterm (en_state (nd_engine nd)) = - 1 then None
      else case node_step ms k ch nd of
        None \<Rightarrow> None
      | Some (nd', out) \<Rightarrow>
          (case feed is nd' of None \<Rightarrow> None | Some (nd'', out') \<Rightarrow> Some (nd'', out @ out')))"

lemma feed_reach:
  "feed is nd = Some (nd', out) \<Longrightarrow> node_reach cfg self addr nd \<Longrightarrow> node_reach cfg self addr nd'"
proof (induction "is" nd arbitrary: nd' out rule: feed.induct)
  case (4 ms k ch "is" nd)
  then obtain nd1 out1 out2 where "node_step ms k ch nd = Some (nd1, out1)" "feed is nd1 = Some (nd', out2)"
      "eterm (en_state (nd_engine nd)) \<noteq> - 1"
    by (auto split: if_splits option.splits prod.splits)
  note run = this
  have "node_reach cfg self addr nd1" by (rule node_reach.step [OF 4(3) run(3,1)])
  with 4(1) [OF run(3) run(1) refl run(2)] show ?case .
qed (auto intro: node_reach.intros)

definition demo_cfg :: election_config where
  "demo_cfg = \<lparr>ElectionTimeout = 3000000000, AnnounceRetryInterval = 200000000, SendRetryInterval = 100000000\<rparr>"

text \<open>A node that sees nobody else elects itself.\<close>

definition elect_self :: "node_input list" where
  "elect_self = replicate 4 (Go [] 1 Proceed)"

section \<open>Properties\<close>

text \<open>
  C14: Two goroutines of a node are never in the same election, and none is in an election of a term
  the node has not reached, whatever the interleaving of its goroutines and the requests it receives.
\<close>

theorem elections_exclude_each_other:
  assumes "node_reach cfg self addr nd"
    and "i < length (nd_procs nd)" and "j < length (nd_procs nd)" and "i \<noteq> j"
    and "election_term (nd_procs nd ! i) = Some t"
  shows "election_term (nd_procs nd ! j) \<noteq> Some t \<and> t \<le> eterm (en_state (nd_engine nd))"
proof -
  have ex: "exclusive_elections nd" using node_reach_inv [OF assms(1)] by (simp add: node_inv_def)
  have two: "\<not> distinct (eterms gs)"
    if "i < j" "j < length gs" "election_term (gs ! i) = Some t" "election_term (gs ! j) = Some t" for i j gs
    using that
  proof (induction gs arbitrary: i j)
    case (Cons g gs)
    show ?case
    proof (cases i)
      case 0
      then have "gs ! (j - 1) \<in> set gs" "election_term (gs ! (j - 1)) = Some t"
        using Cons.prems by (auto simp: nth_Cons split: nat.splits)
      then have "t \<in> set (eterms gs)" by (force simp: eterms_def map_filter_def)
      with 0 Cons.prems show ?thesis by simp
    next
      case (Suc k)
      with Cons.prems Cons.IH [of k "j - 1"] show ?thesis
        by (cases j) (auto split: option.splits)
    qed
  qed simp
  have "\<not> (election_term (nd_procs nd ! j) = Some t)"
    using two [of i j "nd_procs nd"] two [of j i "nd_procs nd"] ex assms
    by (cases "i < j") (auto simp: exclusive_elections_def)
  moreover have "t \<in> set (eterms (nd_procs nd))"
    using assms(2,5) nth_mem [OF assms(2)] by (force simp: eterms_def map_filter_def)
  ultimately show ?thesis using ex by (simp add: exclusive_elections_def)
qed

definition demo_member :: "uint64 \<Rightarrow> string \<Rightarrow> uint64 \<times> member" where
  "demo_member i a = (i, \<lparr>member_ID = i, member_GRPCAddr = a\<rparr>)"

text \<open>A node that sees a higher one, and whose sender got an answer.\<close>

definition elect_higher :: "node_input list" where
  "elect_higher =
     (let ms = [demo_member 5 ''n5:1''] in
      [Go ms 1 Proceed, Go ms 1 Proceed, Go ms 1 (Sender 0 Proceed), Go ms 1 (Sender 0 (Reply (Inr True))),
       Go ms 1 Collect, Go ms 1 Proceed])"

definition waiting_node :: node where
  "waiting_node = (case feed elect_higher (start_node demo_cfg 3 ''n3:1'') of
     None \<Rightarrow> start_node demo_cfg 3 ''n3:1'' | Some r \<Rightarrow> fst r)"

lemma waiting_node_run:
  "feed elect_higher (start_node demo_cfg 3 ''n3:1'') =
     Some (waiting_node, [ElectionRequest ''n5:1'' 3 1 ''n3:1''])"
  "nd_procs waiting_node = [Run, Await 1]" "eterm (en_state (nd_engine waiting_node)) = 1"
  "InElection (en_state (nd_engine waiting_node))"
  by code_simp+

lemma waiting_node_reach: "node_reach demo_cfg 3 ''n3:1'' waiting_node"
  by (rule feed_reach [OF waiting_node_run(1) node_reach.start])

theorem elections_exclude_witness:
  "election_term (nd_procs waiting_node ! 1) = Some 1 \<and> election_term (nd_procs waiting_node ! 0) \<noteq> Some 1"
  using elections_exclude_each_other [OF waiting_node_reach, of 1 0 1] by (simp add: waiting_node_run)

text \<open>
  C15: While a node is in an election, a goroutine of its current term is at work on it and can take
  its next step, whatever the membership: the phase that keeps further elections out is never left
  behind.
\<close>

theorem election_never_abandoned:
  assumes "node_reach cfg self addr nd" and "InElection (en_state (nd_engine nd))"
  shows "\<exists>k ch nd' out. k < length (nd_procs nd) \<and>
    election_term (nd_procs nd ! k) = Some (eterm (en_state (nd_engine nd))) \<and>
    node_step ms k ch nd = Some (nd', out)"
proof -
  let ?s = "en_state (nd_engine nd)"
  obtain k where k: "k < length (nd_procs nd)" "owner (ephase ?s) (nd_procs nd ! k) = Some (eterm ?s)"
    using node_reach_inv [OF assms(1)] assms(2) by (auto simp: node_inv_def owned_def Let_def in_set_conv_nth)
  then obtain ch r where "gstep ms ch (nd_procs nd ! k) (nd_engine nd) = Some r"
    using owner_enabled by blast
  with k(1) have "\<exists>nd' out. node_step ms k ch nd = Some (nd', out)"
    by (cases r) (simp add: node_step_def)
  moreover have "election_term (nd_procs nd ! k) = Some (eterm ?s)"
    using k(2) by (cases "ephase ?s"; cases "nd_procs nd ! k") (auto split: if_splits)
  ultimately show ?thesis using k(1) by blast
qed

theorem election_never_abandoned_witness:
  "InElection (en_state (nd_engine waiting_node)) \<and>
   (\<exists>k ch nd' out. k < length (nd_procs waiting_node) \<and> election_term (nd_procs waiting_node ! k) = Some 1 \<and>
      node_step [] k ch waiting_node = Some (nd', out))"
  using election_never_abandoned [OF waiting_node_reach, of "[]"] waiting_node_run(3,4) by simp

definition nine_announcements :: "node_input list" where
  "nine_announcements =
     concat (map (\<lambda>t. [GetAnnouncement 5 t, Go [] 1 Proceed, Go [] 1 Proceed]) [2, 3, 4, 5, 6, 7, 8, 9]) @
     [GetAnnouncement 5 10, Go [] 1 Proceed]"


definition late_announcement :: "node_input list" where
  "late_announcement =
     elect_self @
     [GetElection 2 1 ''n2:1'', Go [] 1 Proceed, Go [] 1 Proceed,
      GetElection 2 9 ''n2:1'', Go [] 3 Proceed, Go [] 1 Proceed]"


end
