(* ===== verification/Health.thy ===== *)
theory Health
  imports ElectionNode
begin

text \<open>
  \<open>health/handler.go\<close>: the status a node reports over HTTP. The handler reads the election engine four
  times and the cluster once, each under its own lock, so the engine may move between the reads; the
  argument \<open>eng\<close> gives the engine at each of them. The JSON encoder is a parameter.
\<close>

section \<open>The handler\<close>

datatype node_status = StatusNoLeader | StatusElectionInProgress | StatusWaitingCoordinator | StatusLeaderElected

fun status_string :: "node_status \<Rightarrow> string" where
  "status_string StatusNoLeader = ''no_leader''"
| "status_string StatusElectionInProgress = ''election_in_progress''"
| "status_string StatusWaitingCoordinator = ''waiting_for_coordinator''"
| "status_string StatusLeaderElected = ''leader_elected''"

record response =
  resp_NodeID :: uint64
  resp_IsLeader :: bool
  resp_LeaderID :: uint64
  resp_Term :: uint64
  resp_Status :: node_status
  resp_Members :: "(uint64, string) gomap"

definition status_of :: "phase \<Rightarrow> node_status" where
  "status_of p =
     (case p of
        PhaseElecting \<Rightarrow> StatusElectionInProgress
      | PhaseWaitingCoordinator \<Rightarrow> StatusWaitingCoordinator
      | PhaseLeader \<Rightarrow> StatusLeaderElected
      | _ \<Rightarrow> StatusNoLeader)"

definition health_response :: "uint64 \<Rightarrow> (nat \<Rightarrow> engine) \<Rightarrow> (uint64, member) gomap \<Rightarrow> response" where
  "health_response selfID eng ms =
     (let leader = engine_CurrentLeader (eng 0);
          status = status_of (engine_Phase (eng 1))
      in \<lparr>resp_NodeID = selfID, resp_IsLeader = engine_IsLeader (eng 2), resp_LeaderID = leader,
          resp_Term = engine_Term (eng 3), resp_Status = status,
          resp_Members = map (\<lambda>(i, m). (i, member_GRPCAddr m)) ms\<rparr>)"

text \<open>What is written: the header is out before the body is encoded, so an encoding error shows in the body only.\<close>

record http_reply =
  http_ContentType :: string
  http_Code :: nat
  http_Body :: "error + string"

definition ServeHTTP ::
  "(response \<Rightarrow> error + string) \<Rightarrow> uint64 \<Rightarrow> (nat \<Rightarrow> engine) \<Rightarrow> (uint64, member) gomap \<Rightarrow> http_reply" where
  "ServeHTTP enc selfID eng ms =
     \<lparr>http_ContentType = ''application/json'', http_Code = 200, http_Body = enc (health_response selfID eng ms)\<rparr>"

text \<open>\<open>Start\<close>: the address it listens on and the one route it serves.\<close>

definition health_Start :: "string \<Rightarrow> string \<times> string" where
  "health_Start port = ('':'' @ port, ''/health'')"

section \<open>Properties\<close>

text \<open>
  When the engine does not move during a request, the report is coherent: a node that says it
  leads names itself and reports an elected leader; a known leader means the status says so; during an
  election no leader is named; and the members are those of the cluster with their addresses.
\<close>

theorem health_report_coherent:
  assumes "node_reach cfg self addr nd" and "self \<noteq> 0" and "\<forall>k < 4. eng k = nd_engine nd"
  shows "let r = health_response self eng ms in
    (resp_IsLeader r \<longleftrightarrow> resp_LeaderID r = self) \<and>
    (resp_LeaderID r = 0 \<or> resp_Status r = StatusLeaderElected) \<and>
    (resp_Status r \<notin> {StatusElectionInProgress, StatusWaitingCoordinator} \<or> resp_LeaderID r = 0 \<and> \<not> resp_IsLeader r) \<and>
    map_of (resp_Members r) = map_option member_GRPCAddr \<circ> map_of ms"
proof -
  have e: "eng 0 = nd_engine nd" "eng (Suc 0) = nd_engine nd" "eng 2 = nd_engine nd" "eng 3 = nd_engine nd"
    using assms(3) by simp_all
  have "state_inv (en_state (nd_engine nd))" "en_selfID (nd_engine nd) = self"
    using node_reach_inv [OF assms(1)] by (simp_all add: node_inv_def)
  then show ?thesis using assms(2)
    by (auto simp: health_response_def e Let_def status_of_def engine_getters IsLeader_def CurrentLeader_def
        Phase_def state_inv_def map_of_map split: phase.splits)
qed

theorem health_report_witness:
  "let r = health_response 3 (\<lambda>_. nd_engine waiting_node) [] in
   resp_Status r \<notin> {StatusElectionInProgress, StatusWaitingCoordinator} \<or> resp_LeaderID r = 0 \<and> \<not> resp_IsLeader r"
proof -
  have "(3 :: uint64) \<noteq> 0" "\<forall>k < 4. (\<lambda>_ :: nat. nd_engine waiting_node) k = nd_engine waiting_node" by simp_all
  from health_report_coherent [OF waiting_node_reach this, of "[]"] show ?thesis unfolding Let_def by blast
qed

definition leading_node :: node where
  "leading_node = fst (the (feed elect_self (start_node demo_cfg 3 ''n3:1'')))"

definition reelecting_node :: node where
  "reelecting_node = fst (the (feed [Go [] 0 (GotEvent \<lparr>ev_Type = EventJoin, ev_MemberID = 5\<rparr>), Go [] 0 Proceed, Go [] 0 Proceed] leading_node))"

text \<open>
  A request that overlaps a change of the engine can report what was never the case. A node leads
  and begins, when another one joins, the next election; a report whose first read comes before that
  step and whose other reads come after it names the node itself as the leader, denies that the node
  leads and says that an election is in progress.
\<close>

theorem health_report_may_be_torn:
  "feed [Go [] 0 (GotEvent \<lparr>ev_Type = EventJoin, ev_MemberID = 5\<rparr>), Go [] 0 Proceed, Go [] 0 Proceed] leading_node
     = Some (reelecting_node, []) \<and>
   (let r = health_response 3 (\<lambda>k. nd_engine (if k = 0 then leading_node else reelecting_node)) [] in
    resp_LeaderID r = resp_NodeID r \<and> \<not> resp_IsLeader r \<and> resp_Status r = StatusElectionInProgress)"
  by code_simp

end
