(* ===== verification/ElectionNet.thy ===== *)
theory ElectionNet
  imports ElectionNode
begin

text \<open>
  A cluster of nodes that elect a leader over an unreliable network. A request that was sent may be
  delivered at any time, any number of times, to any node, or never; membership views are arbitrary.
  The first result holds of every run: whoever is taken for the leader has won an election of its
  own. The second is about runs in which views are complete and calls are answered: then only the
  node with the highest id is ever taken for the leader.
\<close>

section \<open>The network\<close>

record net =
  net_nodes :: "uint64 \<Rightarrow> node"
  net_sent :: "message set"
  net_declared :: "(uint64 \<times> uint64) set"

definition init_net :: "(uint64 \<Rightarrow> election_config) \<Rightarrow> (uint64 \<Rightarrow> string) \<Rightarrow> net" where
  "init_net cfg addr = \<lparr>net_nodes = (\<lambda>i. start_node (cfg i) i (addr i)), net_sent = {}, net_declared = {}\<rparr>"

text \<open>The term of an election that the goroutine wins with its next step.\<close>

definition wins :: "goroutine \<Rightarrow> engine \<Rightarrow> uint64 set" where
  "wins g e = (case g of Declare t \<Rightarrow> if fst (SetLeader (en_selfID e) t (en_state e)) then {t} else {} | _ \<Rightarrow> {})"

text \<open>
  The runs in which every step of a goroutine is admitted by \<open>adm\<close>, given the node, its membership view,
  the goroutine and the choice.
\<close>

inductive net_step ::
  "uint64 set \<Rightarrow> (uint64 \<Rightarrow> (uint64, member) gomap \<Rightarrow> goroutine \<Rightarrow> choice \<Rightarrow> bool) \<Rightarrow> net \<Rightarrow> net \<Rightarrow> bool"
  for ids adm where
  run: "i \<in> ids \<Longrightarrow> nd = net_nodes N i \<Longrightarrow> eterm (en_state (nd_engine nd)) \<noteq> - 1 \<Longrightarrow>
    node_step ms k ch nd = Some (nd', out) \<Longrightarrow> adm i ms (nd_procs nd ! k) ch \<Longrightarrow>
    net_step ids adm N \<lparr>net_nodes = (net_nodes N)(i := nd'), net_sent = net_sent N \<union> set out,
      net_declared = net_declared N \<union> Pair i ` wins (nd_procs nd ! k) (nd_engine nd)\<rparr>"
| request: "i \<in> ids \<Longrightarrow> ElectionRequest to f t a \<in> net_sent N \<Longrightarrow>
    net_step ids adm N (N\<lparr>net_nodes := (net_nodes N)(i := recv_StartElection f t a (net_nodes N i))\<rparr>)"
| announce: "i \<in> ids \<Longrightarrow> CoordinatorRequest to l t \<in> net_sent N \<Longrightarrow>
    net_step ids adm N (N\<lparr>net_nodes := (net_nodes N)(i := recv_AnnounceLeader l t (net_nodes N i))\<rparr>)"

definition net_reach ::
  "uint64 set \<Rightarrow> (uint64 \<Rightarrow> (uint64, member) gomap \<Rightarrow> goroutine \<Rightarrow> choice \<Rightarrow> bool) \<Rightarrow>
    (uint64 \<Rightarrow> election_config) \<Rightarrow> (uint64 \<Rightarrow> string) \<Rightarrow> net \<Rightarrow> bool" where
  "net_reach ids adm cfg addr N \<longleftrightarrow> (net_step ids adm)\<^sup>*\<^sup>* (init_net cfg addr) N"

section \<open>Leaders have won an election\<close>

text \<open>What a goroutine of node \<open>i\<close>, and a message, may say of leaders, when \<open>D\<close> are the winners.\<close>

fun auth_proc :: "uint64 set \<Rightarrow> uint64 \<Rightarrow> goroutine \<Rightarrow> bool" where
  "auth_proc D i (OnAnnounce_set l t) \<longleftrightarrow> l \<in> D"
| "auth_proc D i (Announce_self a d) \<longleftrightarrow> i \<in> D"
| "auth_proc D i (Announce_self_call a d) \<longleftrightarrow> i \<in> D"
| "auth_proc D i (Announce_self_sleep a d) \<longleftrightarrow> i \<in> D"
| "auth_proc D i (Declare_announce t) \<longleftrightarrow> i \<in> D"
| "auth_proc D i (Announce_member a t d) \<longleftrightarrow> i \<in> D"
| "auth_proc D i (Announce_member_call a t d) \<longleftrightarrow> i \<in> D"
| "auth_proc D i (Announce_member_sleep a t d) \<longleftrightarrow> i \<in> D"
| "auth_proc D i g \<longleftrightarrow> True"

fun auth_msg :: "uint64 set \<Rightarrow> message \<Rightarrow> bool" where
  "auth_msg D (CoordinatorRequest to l t) \<longleftrightarrow> l \<in> D"
| "auth_msg D m \<longleftrightarrow> True"

definition auth_node :: "uint64 set \<Rightarrow> uint64 \<Rightarrow> node \<Rightarrow> bool" where
  "auth_node D i nd \<longleftrightarrow> leaderID (en_state (nd_engine nd)) \<in> insert 0 D \<and>
     (\<forall>g \<in> set (nd_procs nd). auth_proc D i g) \<and> en_selfID (nd_engine nd) = i"

definition net_auth :: "uint64 set \<Rightarrow> net \<Rightarrow> bool" where
  "net_auth ids N \<longleftrightarrow> (let D = fst ` net_declared N in
     (\<forall>i \<in> ids. auth_node D i (net_nodes N i)) \<and> (\<forall>m \<in> net_sent N. auth_msg D m) \<and> D \<subseteq> ids)"

lemma auth_proc_mono: "auth_proc D i g \<Longrightarrow> D \<subseteq> D' \<Longrightarrow> auth_proc D' i g"
  by (cases g) auto

lemma auth_msg_mono: "auth_msg D m \<Longrightarrow> D \<subseteq> D' \<Longrightarrow> auth_msg D' m"
  by (cases m) auto

lemma auth_node_mono: "auth_node D i nd \<Longrightarrow> D \<subseteq> D' \<Longrightarrow> auth_node D' i nd"
  using auth_proc_mono by (auto simp: auth_node_def)

text \<open>A step that wins nothing invents no leader, and one that wins names the node itself.\<close>

lemma gstep_leader:
  assumes "gstep ms ch g e = Some (gs, e', out)"
  shows "leaderID (en_state e') \<in> {0, leaderID (en_state e)} \<or>
    (\<exists>t. g = OnAnnounce_set (leaderID (en_state e')) t) \<or>
    leaderID (en_state e') = en_selfID e \<and> wins g e \<noteq> {}"
  by (cases g) (use assms in \<open>auto simp: Let_def signalCoordinator_def signalRetry_def state_defs wins_def
      split: gstep_splits phase.splits\<close>)

lemma gstep_auth:
  assumes "gstep ms ch g e = Some (gs, e', out)" and "auth_proc D i g"
    and "leaderID (en_state e) \<in> insert 0 D" and "en_selfID e = i" and "i \<noteq> 0"
    and "D \<subseteq> D'" and "wins g e \<noteq> {} \<Longrightarrow> i \<in> D'"
  shows "(\<forall>g' \<in> set gs. auth_proc D' i g') \<and> (\<forall>m \<in> set out. auth_msg D' m)"
proof (cases g)
  case (Declare t)
  then show ?thesis using assms(1,4,7) by (cases "SetLeader (en_selfID e) t (en_state e)") (auto simp: wins_def split: if_splits)
next
  case (OnStart_check f a)
  have "leaderID (en_state e) = i \<Longrightarrow> i \<in> D'" using assms(3,5,6) by blast
  with OnStart_check assms(1,4) show ?thesis by (auto simp: IsLeader_def split: if_splits)
qed (use assms(1,4) auth_proc_mono [OF assms(2,6)] in \<open>auto simp: Let_def signalCoordinator_def signalRetry_def split: gstep_splits\<close>)

lemma gstep_auth_leader:
  assumes g: "gstep ms ch g e = Some (gs, e', out)" and "auth_proc D i g"
    and "leaderID (en_state e) \<in> insert 0 D" and "en_selfID e = i"
    and "D \<subseteq> D'" and "wins g e \<noteq> {} \<Longrightarrow> i \<in> D'"
  shows "leaderID (en_state e') \<in> insert 0 D'"
  using gstep_leader [OF g]
proof (elim disjE exE conjE)
  assume "leaderID (en_state e') = en_selfID e" "wins g e \<noteq> {}"
  with assms(4,6) show ?thesis by simp
qed (use assms(2,3,5) in auto)

lemma net_auth_step:
  assumes "net_step ids adm N N'" and "net_auth ids N" and "0 \<notin> ids"
  shows "net_auth ids N'"
  using assms(1)
proof cases
  case (run i nd ms k ch nd' out)
  let ?D = "fst ` net_declared N" and ?D' = "fst ` net_declared N'"
  obtain pre g post gs where p: "nd_procs nd = pre @ g # post" "nd_procs nd' = pre @ gs @ post"
    and g: "gstep ms ch g (nd_engine nd) = Some (gs, nd_engine nd', out)" and gk: "nd_procs nd ! k = g"
    by (rule node_step_procs_nth [OF run(5)])
  have D: "?D \<subseteq> ?D'" "wins g (nd_engine nd) \<noteq> {} \<Longrightarrow> i \<in> ?D'" "?D' \<subseteq> insert i ?D"
    using gk by (auto simp: run(1) image_Un image_image)
  have nd: "auth_node ?D i nd" and sub: "?D \<subseteq> ids" using assms(2) run(2,3) by (auto simp: net_auth_def Let_def)
  have i0: "i \<noteq> 0" using run(2) assms(3) by auto
  note pre = nd [unfolded auth_node_def]
  have ga: "auth_proc ?D i g" using pre by (simp add: p)
  note new = gstep_auth [OF g ga _ _ i0 D(1,2)] gstep_auth_leader [OF g ga _ _ D(1,2)]
  have "auth_node ?D' i nd'"
    using new pre gstep_fixed [OF g] auth_proc_mono [OF _ D(1)] by (auto simp: auth_node_def p)
  moreover have "\<forall>m \<in> set out. auth_msg ?D' m" using new pre by simp
  ultimately show ?thesis
    using assms(2) run(2) D sub auth_node_mono [OF _ D(1)] auth_msg_mono [OF _ D(1)]
    by (auto simp: net_auth_def Let_def run(1))
next
  case (request i to f t a)
  then show ?thesis using assms(2) by (auto simp: net_auth_def Let_def auth_node_def recv_StartElection_def)
next
  case (announce i to l t)
  then show ?thesis using assms(2) by (auto simp: net_auth_def Let_def auth_node_def recv_AnnounceLeader_def)
qed

lemma net_reach_auth:
  assumes "net_reach ids adm cfg addr N" and "0 \<notin> ids"
  shows "net_auth ids N"
  using assms(1) unfolding net_reach_def
proof (induction rule: rtranclp_induct)
  case base
  then show ?case
    by (simp add: net_auth_def init_net_def auth_node_def start_node_def NewEngine_def NewState_def)
next
  case (step N N')
  then show ?case using net_auth_step assms(2) by blast
qed

section \<open>The highest node wins\<close>

text \<open>
  A step in a quiet cluster: the view has every node, and while requests go out to higher nodes no
  call fails and no time runs out. (A server answers every election request with \<open>Ok: true\<close>.)
\<close>

definition quiet :: "uint64 set \<Rightarrow> uint64 \<Rightarrow> (uint64, member) gomap \<Rightarrow> goroutine \<Rightarrow> choice \<Rightarrow> bool" where
  "quiet ids i ms g ch \<longleftrightarrow> member_ID ` snd ` set ms = ids \<and>
     (case g of Elect_send t st \<Rightarrow>
        ch \<noteq> CtxDone \<and> (\<forall>k c. ch = Sender k c \<longrightarrow> c \<noteq> CtxDone \<and> (\<forall>r. c = Reply r \<longrightarrow> r = Inr True))
      | _ \<Rightarrow> True)"

fun quiet_proc :: "uint64 \<Rightarrow> uint64 \<Rightarrow> goroutine \<Rightarrow> bool" where
  "quiet_proc h i (Declare t) \<longleftrightarrow> i = h"
| "quiet_proc h i (Elect_send t st) \<longleftrightarrow> set (resultC st) \<subseteq> {True} \<and> uncollected st \<noteq> 0"
| "quiet_proc h i g \<longleftrightarrow> True"

lemma sender_step_quiet:
  assumes "sender_step cfg k c st = Some (st', to)" and "c \<noteq> CtxDone" and "\<forall>r. c = Reply r \<longrightarrow> r = Inr True"
  shows "set (resultC st') \<subseteq> insert True (set (resultC st)) \<and> uncollected st' = uncollected st"
  using assms
  by (cases c) (auto simp: Let_def split: if_splits sum.splits prod.splits)

lemma higher_members_none:
  assumes "higher_members i ms = []" and "member_ID ` snd ` set ms = ids" and "i \<in> ids" and "finite ids"
  shows "i = Max ids"
proof -
  have "j \<le> i" if "j \<in> ids" for j
    using that assms(1,2) by (auto simp: higher_members_def filter_empty_conv not_less)
  then show ?thesis using assms(3,4) by (intro Max_eqI [symmetric]) auto
qed

lemma gstep_quiet:
  assumes "gstep ms ch g e = Some (gs, e', out)" and "quiet ids i ms g ch" and "quiet_proc (Max ids) i g"
    and "en_selfID e = i" and "i \<in> ids" and "finite ids"
  shows "(\<forall>g' \<in> set gs. quiet_proc (Max ids) i g') \<and> (wins g e \<noteq> {} \<longrightarrow> i = Max ids)"
proof (cases g)
  case (Elect_members t)
  then show ?thesis using assms higher_members_none [of i ms ids]
    by (auto simp: Let_def quiet_def wins_def split: if_splits)
next
  case (Elect_send t st)
  then have q: "ch \<noteq> CtxDone" "\<And>k c. ch = Sender k c \<Longrightarrow> c \<noteq> CtxDone \<and> (\<forall>r. c = Reply r \<longrightarrow> r = Inr True)"
    and st: "set (resultC st) \<subseteq> {True}" "uncollected st \<noteq> 0"
    using assms(2,3) by (auto simp: quiet_def)
  show ?thesis
  proof (cases ch)
    case (Sender k c)
    then show ?thesis using Elect_send assms(1) st q(2) [OF Sender]
      by (fastforce simp: wins_def split: option.splits prod.splits dest: sender_step_quiet)
  next
    case Collect
    then show ?thesis using Elect_send assms(1) st
      by (auto simp: wins_def split: list.splits if_splits)
  qed (use Elect_send assms(1) q(1) in auto)
next
  case (Declare t)
  then show ?thesis using assms by (auto split: if_splits prod.splits)
qed (use assms in \<open>auto simp: Let_def wins_def signalCoordinator_def signalRetry_def split: gstep_splits\<close>)

definition net_quiet :: "uint64 set \<Rightarrow> net \<Rightarrow> bool" where
  "net_quiet ids N \<longleftrightarrow> (\<forall>i \<in> ids. \<forall>g \<in> set (nd_procs (net_nodes N i)). quiet_proc (Max ids) i g) \<and>
     fst ` net_declared N \<subseteq> {Max ids}"

lemma net_quiet_step:
  assumes "net_step ids (quiet ids) N N'" and "net_quiet ids N" and "net_auth ids N" and "finite ids"
  shows "net_quiet ids N'"
  using assms(1)
proof cases
  case (run i nd ms k ch nd' out)
  obtain pre g post gs where p: "nd_procs nd = pre @ g # post" "nd_procs nd' = pre @ gs @ post"
    and g: "gstep ms ch g (nd_engine nd) = Some (gs, nd_engine nd', out)" and gk: "nd_procs nd ! k = g"
    by (rule node_step_procs_nth [OF run(5)])
  have self: "en_selfID (nd_engine nd) = i" using assms(3) run(2,3) by (auto simp: net_auth_def Let_def auth_node_def)
  have old: "\<forall>g' \<in> set (pre @ g # post). quiet_proc (Max ids) i g'"
    using assms(2) run(2,3) p(1) by (auto simp: net_quiet_def)
  then have gq: "quiet_proc (Max ids) i g" by simp
  note new = gstep_quiet [OF g _ gq self run(2) assms(4)]
  have "quiet ids i ms g ch" using run(6) gk by simp
  with new old assms(2) gk show ?thesis by (auto simp: net_quiet_def run(1) p)
next
  case (request i to f t a)
  then show ?thesis using assms(2) by (auto simp: net_quiet_def recv_StartElection_def)
next
  case (announce i to l t)
  then show ?thesis using assms(2) by (auto simp: net_quiet_def recv_AnnounceLeader_def)
qed

lemma net_reach_quiet:
  assumes "net_reach ids (quiet ids) cfg addr N" and "0 \<notin> ids" and "finite ids"
  shows "net_quiet ids N \<and> net_auth ids N"
  using assms(1) unfolding net_reach_def
proof (induction rule: rtranclp_induct)
  case base
  have "net_reach ids (quiet ids) cfg addr (init_net cfg addr)" by (simp add: net_reach_def)
  then have "net_auth ids (init_net cfg addr)" using net_reach_auth assms(2) by blast
  then show ?case by (simp add: net_quiet_def init_net_def start_node_def)
next
  case (step N N')
  then show ?case using net_auth_step net_quiet_step assms(2,3) by blast
qed

section \<open>Properties\<close>

text \<open>
  C2: In every run of the cluster, over a network that loses, delays, repeats and misdelivers
  requests and with any membership views, the leader a node knows is a node of the cluster that has
  itself won an election.
\<close>

theorem leaders_have_won_an_election:
  assumes "net_reach ids adm cfg addr N" and "0 \<notin> ids" and "i \<in> ids"
    and "CurrentLeader (en_state (nd_engine (net_nodes N i))) = l" and "l \<noteq> 0"
  shows "l \<in> ids \<and> (\<exists>t. (l, t) \<in> net_declared N)"
proof -
  have "net_auth ids N" by (rule net_reach_auth [OF assms(1,2)])
  then have "auth_node (fst ` net_declared N) i (net_nodes N i)" and "fst ` net_declared N \<subseteq> ids"
    using assms(3) by (simp_all add: net_auth_def Let_def)
  with assms(4,5) show ?thesis by (auto simp: auth_node_def CurrentLeader_def)
qed

text \<open>
  C3: In a run where every view holds the whole cluster and no call to a higher node fails or times
  out, the only leader any node ever knows is the node with the highest id, so that at most one node
  takes itself for the leader.
\<close>

theorem highest_node_leads:
  assumes "net_reach ids (quiet ids) cfg addr N" and "0 \<notin> ids" and "finite ids" and "i \<in> ids"
  shows "CurrentLeader (en_state (nd_engine (net_nodes N i))) \<in> {0, Max ids} \<and>
    (engine_IsLeader (nd_engine (net_nodes N i)) \<longrightarrow> i = Max ids)"
proof -
  have q: "net_quiet ids N" and a: "net_auth ids N" using net_reach_quiet [OF assms(1-3)] by simp_all
  have "auth_node (fst ` net_declared N) i (net_nodes N i)" using a assms(4) by (simp add: net_auth_def Let_def)
  with q have "leaderID (en_state (nd_engine (net_nodes N i))) \<in> {0, Max ids}"
    and "en_selfID (nd_engine (net_nodes N i)) = i"
    by (auto simp: auth_node_def net_quiet_def)
  moreover have "i \<noteq> 0" using assms(2,4) by blast
  ultimately show ?thesis by (auto simp: CurrentLeader_def engine_IsLeader_def IsLeader_def)
qed

section \<open>A run\<close>

text \<open>Two nodes; the higher one runs its election, announces itself, and the lower one listens.\<close>

fun net_feed :: "(uint64 \<times> (uint64, member) gomap \<times> nat \<times> choice) list \<Rightarrow> net \<Rightarrow> net option" where
  "net_feed [] N = Some N"
| "net_feed ((i, ms, k, ch) # is) N =
     (if eterm (en_state (nd_engine (net_nodes N i))) = - 1 then None
      else case node_step ms k ch (net_nodes N i) of
        None \<Rightarrow> None
      | Some (nd', out) \<Rightarrow>
          net_feed is \<lparr>net_nodes = (net_nodes N)(i := nd'), net_sent = net_sent N \<union> set out,
            net_declared = net_declared N \<union>
              Pair i ` wins (nd_procs (net_nodes N i) ! k) (nd_engine (net_nodes N i))\<rparr>)"

lemma net_feed_steps:
  assumes "net_feed is N = Some N'" and "\<And>i ms k ch g. (i, ms, k, ch) \<in> set is \<Longrightarrow> i \<in> ids \<and> adm i ms g ch"
  shows "(net_step ids adm)\<^sup>*\<^sup>* N N'"
  using assms
proof (induction "is" N rule: net_feed.induct)
  case (2 i ms k ch "is" N)
  from 2(2) obtain nd' out where nw: "eterm (en_state (nd_engine (net_nodes N i))) \<noteq> - 1"
    and st: "node_step ms k ch (net_nodes N i) = Some (nd', out)"
    by (auto split: if_splits option.splits)
  have "i \<in> ids" "adm i ms g ch" for g using 2(3) [of i ms k ch g] by simp_all
  then have "net_step ids adm N \<lparr>net_nodes = (net_nodes N)(i := nd'), net_sent = net_sent N \<union> set out,
      net_declared = net_declared N \<union> Pair i ` wins (nd_procs (net_nodes N i) ! k) (nd_engine (net_nodes N i))\<rparr>"
    using net_step.run [OF _ refl nw st] by blast
  moreover have "net_feed is \<lparr>net_nodes = (net_nodes N)(i := nd'), net_sent = net_sent N \<union> set out,
      net_declared = net_declared N \<union> Pair i ` wins (nd_procs (net_nodes N i) ! k) (nd_engine (net_nodes N i))\<rparr> = Some N'"
    using 2(2) nw st by simp
  note rest = 2(1) [OF nw st refl this]
  have "j \<in> ids \<and> adm j ms' g ch'" if "(j, ms', k', ch') \<in> set is" for j ms' k' ch' g
    using 2(3) [of j ms' k' ch' g] that by simp
  note rest [OF this]
  ultimately show ?case by (rule converse_rtranclp_into_rtranclp)
qed simp

definition demo_view :: "(uint64, member) gomap" where
  "demo_view = [demo_member 3 ''n3:1'', demo_member 5 ''n5:1'']"

definition demo_net :: net where
  "demo_net = init_net (\<lambda>_. demo_cfg) (\<lambda>i. if i = 5 then ''n5:1'' else ''n3:1'')"

definition demo_election :: net where
  "demo_election = the (net_feed (replicate 5 (5, demo_view, 1, Proceed)) demo_net)"

definition demo_announced :: net where
  "demo_announced = (let N = demo_election; nd = recv_AnnounceLeader 5 1 (net_nodes N 3)
     in the (net_feed [(3, demo_view, 2, Proceed)] (N\<lparr>net_nodes := (net_nodes N)(3 := nd)\<rparr>)))"

lemma demo_quiet: "quiet {3, 5} i demo_view g Proceed"
  by (cases g) (simp_all add: quiet_def demo_view_def demo_member_def insert_commute)

lemma demo_announced_reach: "net_reach {3, 5} (quiet {3, 5}) (\<lambda>_. demo_cfg) (\<lambda>i. if i = 5 then ''n5:1'' else ''n3:1'') demo_announced"
proof -
  have ok: "net_feed (replicate 5 (5, demo_view, 1, Proceed)) demo_net \<noteq> None" by code_simp
  then have a: "(net_step {3, 5} (quiet {3, 5}))\<^sup>*\<^sup>* demo_net demo_election"
    unfolding demo_election_def by (intro net_feed_steps) (auto simp: demo_quiet)
  let ?N = "demo_election\<lparr>net_nodes := (net_nodes demo_election)(3 := recv_AnnounceLeader 5 1 (net_nodes demo_election 3))\<rparr>"
  have "CoordinatorRequest ''n3:1'' 5 1 \<in> net_sent demo_election" by code_simp
  then have b: "net_step {3, 5} (quiet {3, 5}) demo_election ?N" by (intro net_step.announce) auto
  have "net_feed [(3, demo_view, 2, Proceed)] ?N \<noteq> None" by code_simp
  then have "net_feed [(3, demo_view, 2, Proceed)] ?N = Some demo_announced"
    unfolding demo_announced_def Let_def by (metis option.collapse)
  then have "(net_step {3, 5} (quiet {3, 5}))\<^sup>*\<^sup>* ?N demo_announced"
    by (rule net_feed_steps) (auto simp: demo_quiet)
  with a b show ?thesis unfolding net_reach_def demo_net_def [symmetric] by (meson rtranclp.rtrancl_into_rtrancl rtranclp_trans)
qed

lemma demo_announced_leader: "CurrentLeader (en_state (nd_engine (net_nodes demo_announced 3))) = 5"
  by code_simp

theorem leaders_have_won_witness:
  "CurrentLeader (en_state (nd_engine (net_nodes demo_announced 3))) = 5 \<and> (\<exists>t. (5, t) \<in> net_declared demo_announced)"
  using leaders_have_won_an_election [OF demo_announced_reach, of 3 5] demo_announced_leader by simp

theorem highest_node_witness:
  "CurrentLeader (en_state (nd_engine (net_nodes demo_announced 3))) = 5 \<and>
   CurrentLeader (en_state (nd_engine (net_nodes demo_announced 3))) \<in> {0, Max {3, 5}}"
  using highest_node_leads [OF demo_announced_reach, of 3] demo_announced_leader by simp

end
