(* ===== verification/NodeMain.thy ===== *)
theory NodeMain
  imports System Health ElectionNet SchedulerProps
begin

text \<open>
  \<open>cmd/node/main.go\<close>: how a node is put together and started, with \<open>task.NewPool\<close> and
  \<open>LogConfig.BuildLogger\<close>. The libraries whose calls may fail are parameters; what main does that others
  can see is the list of its actions.
\<close>

section \<open>Logger and pool\<close>

text \<open>The configurations \<open>zap\<close> is asked to build; an unknown format leaves the zero value.\<close>

datatype zap_base = ZapZero | ZapProduction_ISO8601 | ZapDevelopment

record 'lvl zap_lib =
  UnmarshalText :: "string \<Rightarrow> error + 'lvl"
  zap_Build :: "zap_base \<Rightarrow> 'lvl \<Rightarrow> error + unit"

definition BuildLogger :: "'lvl zap_lib \<Rightarrow> log_config \<Rightarrow> error + unit" where
  "BuildLogger zap c =
     (let zapCfg = (if log_Format c = ''json'' then ZapProduction_ISO8601
                    else if log_Format c = ''text'' then ZapDevelopment else ZapZero)
      in case UnmarshalText zap (log_Level c) of
           Inl e \<Rightarrow> Inl (Wrap ''invalid log level'' e)
         | Inr level \<Rightarrow> zap_Build zap zapCfg level)"

record 'p pool_lib =
  pgxpool_New :: "string \<Rightarrow> error + 'p"
  pool_Ping :: "'p \<Rightarrow> error + unit"

definition NewPool :: "'p pool_lib \<Rightarrow> string \<Rightarrow> error + 'p" where
  "NewPool lib dsn =
     (case pgxpool_New lib dsn of
        Inl e \<Rightarrow> Inl (Wrap ''create pool'' e)
      | Inr pool \<Rightarrow>
          (case pool_Ping lib pool of Inl e \<Rightarrow> Inl (Wrap ''ping postgres'' e) | Inr _ \<Rightarrow> Inr pool))"

section \<open>main\<close>

record ('lvl, 'p, 'ml) node_libs =
  lib_zap :: "'lvl zap_lib"
  lib_pool :: "'p pool_lib"
  lib_px :: "'p \<Rightarrow> pgx"
  lib_json :: json_codec
  lib_net :: "'ml net_lib"
  lib_ml :: "'ml ml_lib"
  LookPath :: "string \<Rightarrow> error + string"
  Listen :: "string \<Rightarrow> error + unit"

text \<open>The parts of a node as main has put them together.\<close>

record ('x, 'ml) parts =
  pt_store :: postgres_store
  pt_storage :: storage_client
  pt_cluster :: "'ml \<times> event_handler"
  pt_election :: node
  pt_scheduler :: "round_robin sched_engine"
  pt_executor :: "'x task_executor"
  pt_worker :: worker_engine

datatype action =
    HealthServed string string
  | GrpcServed string
  | ClusterJoined "string list"
  | ElectionStarted
  | SchedulerStarted
  | GrpcStopped
  | ClusterLeft "error + unit"

datatype outcome =
    ExitConfig error
  | ExitLogger error
  | Fatal string error
  | Terminated

text \<open>The components, from the connection to the database to the listening socket.\<close>

definition assemble ::
  "'x s3_lib \<Rightarrow> ('lvl, 'p, 'ml) node_libs \<Rightarrow> config \<Rightarrow> outcome + ('x, 'ml) parts" where
  "assemble s3 libs cfg =
     (case NewPool (lib_pool libs) (database_DSN (cfg_Database cfg)) of
        Inl e \<Rightarrow> Inl (Fatal ''failed to connect to postgres'' e)
      | Inr pool \<Rightarrow>
     (case NewStorage (cfg_Storage cfg) of
        Inl e \<Rightarrow> Inl (Fatal ''failed to create storage client'' e)
      | Inr storage \<Rightarrow>
     (case NewCluster (lib_json libs) (lib_net libs) (cfg_Memberlist cfg) (cfg_Node cfg) of
        Inl e \<Rightarrow> Inl (Fatal ''failed to create cluster'' e)
      | Inr cl \<Rightarrow>
     (case LookPath libs ''python3'' of
        Inl e \<Rightarrow> Inl (Fatal ''python3 not found'' e)
      | Inr pythonPath \<Rightarrow>
          Inr \<lparr>pt_store = NewPostgresStore (LeaseDuration (cfg_Scheduler cfg)) (lib_px libs pool),
               pt_storage = storage, pt_cluster = cl,
               pt_election = start_node (cfg_Election cfg) (node_ID (cfg_Node cfg)) (node_Address (cfg_Node cfg)),
               pt_scheduler = NewScheduler (node_ID (cfg_Node cfg)) (cfg_Scheduler cfg) NewRoundRobin,
               pt_executor = NewTaskExecutor (client_iface s3 storage) pythonPath,
               pt_worker = NewWorker (node_ID (cfg_Node cfg)) (LeaseRenewalInterval (cfg_Worker cfg))
                 (RPCTimeout (cfg_Worker cfg))\<rparr>))))"

text \<open>
  The whole of main up to its end, which comes when a signal has cancelled the context. It returns the
  outcome, the actions in their order and the parts, where it got that far.
\<close>

definition main ::
  "osenv \<Rightarrow> 'x s3_lib \<Rightarrow> ('lvl, 'p, 'ml) node_libs \<Rightarrow> outcome \<times> action list \<times> ('x, 'ml) parts option" where
  "main env s3 libs =
     (case Load env of
        Inl e \<Rightarrow> (ExitConfig e, [], None)
      | Inr cfg \<Rightarrow>
     (case BuildLogger (lib_zap libs) (cfg_Log cfg) of
        Inl e \<Rightarrow> (ExitLogger e, [], None)
      | Inr _ \<Rightarrow>
     (case assemble s3 libs cfg of
        Inl out \<Rightarrow> (out, [], None)
      | Inr ps \<Rightarrow>
          let health = (case health_Start (health_Port (cfg_Health cfg)) of (addr, route) \<Rightarrow> HealthServed addr route);
              grpcAddr = '':'' @ server_Port (cfg_Server cfg)
          in case Listen libs grpcAddr of
               Inl e \<Rightarrow> (Fatal ''failed to listen'' e, [health], Some ps)
             | Inr _ \<Rightarrow>
               (case cluster_Join (lib_ml libs) (ml_Seeds (cfg_Memberlist cfg)) (fst (pt_cluster ps)) of
                  (Inl e, _) \<Rightarrow> (Fatal ''failed to join cluster'' e, [health, GrpcServed grpcAddr], Some ps)
                | (Inr _, ml1) \<Rightarrow>
                    (Terminated,
                     [health, GrpcServed grpcAddr, ClusterJoined (ml_Seeds (cfg_Memberlist cfg)), ElectionStarted,
                      SchedulerStarted, GrpcStopped, ClusterLeft (fst (cluster_Leave (lib_ml libs) ml1))],
                     Some ps)))))"

section \<open>Properties\<close>

lemma main_parts:
  assumes "main env s3 libs = (out, acts, Some ps)"
  obtains cfg where "Load env = Inr cfg" "assemble s3 libs cfg = Inr ps"
  using assms
  by (auto simp: main_def Let_def split: sum.splits prod.splits)

lemma assemble_parts:
  assumes "assemble s3 libs cfg = Inr ps"
  shows "pt_election ps = start_node (cfg_Election cfg) (node_ID (cfg_Node cfg)) (node_Address (cfg_Node cfg))"
    and "pt_scheduler ps = NewScheduler (node_ID (cfg_Node cfg)) (cfg_Scheduler cfg) NewRoundRobin"
    and "pt_worker ps = NewWorker (node_ID (cfg_Node cfg)) (LeaseRenewalInterval (cfg_Worker cfg)) (RPCTimeout (cfg_Worker cfg))"
    and "NewCluster (lib_json libs) (lib_net libs) (cfg_Memberlist cfg) (cfg_Node cfg) = Inr (pt_cluster ps)"
  using assms by (auto simp: assemble_def split: sum.splits)


fun stage :: "action \<Rightarrow> nat" where
  "stage (HealthServed a r) = 0"
| "stage (GrpcServed a) = 1"
| "stage (ClusterJoined s) = 2"
| "stage ElectionStarted = 3"
| "stage SchedulerStarted = 4"
| "stage GrpcStopped = 5"
| "stage (ClusterLeft r) = 6"

text \<open>
  A node joins the cluster, and runs elections and schedules, only after its gRPC service is up and
  after everything else has been set up without an error; when it ends in an error it has not joined,
  and when it ends regularly it has stopped serving before it left.
\<close>

theorem startup_order:
  "case main env s3 libs of (out, acts, ps) \<Rightarrow>
     \<exists>n \<in> {0, 1, 2, 7}. map stage acts = [0..<n] \<and> (n = 7 \<longleftrightarrow> out = Terminated) \<and> (n = 0 \<longleftrightarrow> ps = None)"
  by (auto simp: main_def assemble_def health_Start_def Let_def upt_rec split: sum.splits prod.splits)

text \<open>
  An interval of zero or less in \<open>SCHEDULER_POLL_INTERVAL\<close> or \<open>WORKER_LEASE_RENEWAL_INTERVAL\<close> is
  accepted like any other, and the node starts; but \<open>time.NewTicker\<close> panics on it, so that the node
  crashes when its scheduler starts, or when it runs its first task.
\<close>

theorem nonpositive_interval_crashes:
  assumes "main env s3 libs = (out, acts, Some ps)"
    and "Getenv env key \<noteq> ''''" and "ParseDuration env (Getenv env key) = Inr d" and "d \<le> 0"
  shows "(key = ''SCHEDULER_POLL_INTERVAL'' \<longrightarrow> fst (sched_run deps evs (pt_scheduler ps) w) = SchedPanicked) \<and>
    (key = ''WORKER_LEASE_RENEWAL_INTERVAL'' \<longrightarrow> fst (renewLoop wd (pt_worker ps) taskID evs' w') = Panicked)"
proof -
  obtain cfg where cfg: "Load env = Inr cfg" and ps: "assemble s3 libs cfg = Inr ps" by (rule main_parts [OF assms(1)])
  have "cfg_Scheduler cfg = loadSchedulerConfig env" "cfg_Worker cfg = loadWorkerConfig env"
    using cfg by (auto simp: Load_def split: sum.splits)
  then have "PollInterval (sch_cfg (pt_scheduler ps)) = getDurationEnv env ''SCHEDULER_POLL_INTERVAL'' (5 * second)"
    "wk_leaseRenewEvery (pt_worker ps) = getDurationEnv env ''WORKER_LEASE_RENEWAL_INTERVAL'' (30 * second)"
    by (simp_all add: assemble_parts(2,3) [OF ps] NewScheduler_def NewWorker_def loadSchedulerConfig_def loadWorkerConfig_def)
  moreover have "getDurationEnv env key x = d" for x using assms(2,3) by (simp add: getDurationEnv_def)
  ultimately show ?thesis using assms(4) by (auto simp: sched_run_def renewLoop_def)
qed

section \<open>Examples\<close>

definition demo_env :: osenv where
  "demo_env = \<lparr>Getenv = (\<lambda>k. if k = ''NODE_ID'' then ''3'' else ''7946''), ParseDuration = (\<lambda>_. Inr 0)\<rparr>"

definition demo_libs :: "(unit, unit, ml_settings) node_libs" where
  "demo_libs = \<lparr>lib_zap = \<lparr>UnmarshalText = (\<lambda>_. Inr ()), zap_Build = (\<lambda>_ _. Inr ())\<rparr>,
     lib_pool = \<lparr>pgxpool_New = (\<lambda>_. Inr ()), pool_Ping = (\<lambda>_. Inr ())\<rparr>, lib_px = (\<lambda>_. demo_px),
     lib_json = plain_json, lib_net = any_net,
     lib_ml = \<lparr>ml_Join = (\<lambda>ml seeds. (Inr 1, ml)), ml_Leave = (\<lambda>ml d. (Inr (), ml)), ml_Shutdown = (\<lambda>ml. (Inr (), ml))\<rparr>,
     LookPath = (\<lambda>p. Inr p), Listen = (\<lambda>_. Inr ())\<rparr>"

definition demo_parts :: "(string \<Rightarrow> string \<Rightarrow> string option, ml_settings) parts" where
  "demo_parts = the (snd (snd (main demo_env demo_s3 demo_libs)))"

lemma demo_main: "\<exists>acts. main demo_env demo_s3 demo_libs = (Terminated, acts, Some demo_parts)"
proof -
  have n: "ParseUint ''3'' = Inr 3" "Atoi ''7946'' = Inr 7946" by code_simp+
  have env: "Getenv demo_env k = (if k = ''NODE_ID'' then ''3'' else ''7946'')" for k by (simp add: demo_env_def)
  have "\<exists>cfg. Load demo_env = Inr cfg"
    by (simp add: Load_def loadNodeConfig_def loadServerConfig_def loadDatabaseConfig_def loadStorageConfig_def
        loadMemberlistConfig_def env n)
  then obtain cfg where "Load demo_env = Inr cfg" by blast
  then obtain acts p where "main demo_env demo_s3 demo_libs = (Terminated, acts, Some p)"
    by (auto simp add: main_def assemble_def demo_libs_def BuildLogger_def NewPool_def NewStorage_def NewCluster_def
        encodeNodeMeta_def plain_json_def resolveAdvertise_def any_net_def cluster_Join_def Let_def split: prod.splits)
  then show ?thesis by (simp add: demo_parts_def)
qed


theorem nonpositive_interval_witness:
  "fst (sched_run demo_deps [] (pt_scheduler demo_parts) (demo_world empty_pg [] [])) = SchedPanicked"
proof -
  obtain acts where m: "main demo_env demo_s3 demo_libs = (Terminated, acts, Some demo_parts)" using demo_main by blast
  have "Getenv demo_env ''SCHEDULER_POLL_INTERVAL'' \<noteq> ''''"
    "ParseDuration demo_env (Getenv demo_env ''SCHEDULER_POLL_INTERVAL'') = Inr 0" "(0 :: int) \<le> 0"
    by (simp_all add: demo_env_def)
  from conjunct1 [OF nonpositive_interval_crashes [OF m this]] show ?thesis by simp
qed

end
